theory Spec2Isabelle
  imports Main "HOL-Library.Sublist"
begin

section \<open>The operating system as seen by cache-pkgs\<close>

text \<open>
  \<^verbatim>\<open>main.go\<close> is a sequence of calls into the Go standard library: \<^verbatim>\<open>os.Stat\<close>,
  \<^verbatim>\<open>os.RemoveAll\<close>, \<^verbatim>\<open>os.MkdirAll\<close>, \<^verbatim>\<open>os.Symlink\<close>, \<^verbatim>\<open>os.Open\<close>,
  \<^verbatim>\<open>path.Join\<close>, \<^verbatim>\<open>filepath.Abs\<close> and \<^verbatim>\<open>exec.Command(...).Run()\<close>. This section
  models what those calls do on a Unix file system (the program is "Unix only"); the next
  section translates the functions of \<^verbatim>\<open>main.go\<close> one by one on top of it.

  A file system is a partial map from locations to nodes. A location is the list of names
  from the root to the node, free of \<open>.\<close>, \<open>..\<close> and symbolic links; the root is the
  empty list and is always a directory. Permissions, hard links and devices are not
  modelled.
\<close>

type_synonym path = "string list"

datatype node = File string | Dir | Symlink string

type_synonym fsys = "path \<Rightarrow> node option"

definition node_at :: "fsys \<Rightarrow> path \<Rightarrow> node option" where
  "node_at f p = (if p = [] then Some Dir else f p)"

datatype errno = ENOENT | ENOTDIR | EEXIST | EISDIR | ELOOP | EINVAL

subsection \<open>Path strings\<close>

definition is_abs :: "string \<Rightarrow> bool" where
  "is_abs s = (case s of [] \<Rightarrow> False | c # _ \<Rightarrow> c = CHR ''/'')"

text \<open>The names between the slashes of a path string; empty names are dropped.\<close>

fun splitc :: "string \<Rightarrow> string \<Rightarrow> string list" where
  "splitc acc [] = (if acc = [] then [] else [acc])"
| "splitc acc (c # cs) =
     (if c = CHR ''/'' then (if acc = [] then splitc [] cs else acc # splitc [] cs)
      else splitc (acc @ [c]) cs)"

definition components :: "string \<Rightarrow> string list" where
  "components s = splitc [] s"

fun join_slash :: "string list \<Rightarrow> string" where
  "join_slash [] = []"
| "join_slash [c] = c"
| "join_slash (c # d # cs) = c @ CHR ''/'' # join_slash (d # cs)"

text \<open>
  \<^verbatim>\<open>path.Clean\<close> (and \<^verbatim>\<open>filepath.Clean\<close> on Unix): purely lexical. It drops empty names
  and \<open>.\<close>, cancels a name against a following \<open>..\<close>, drops \<open>..\<close> at the root, and
  returns \<open>.\<close> for an empty result. The stack \<open>st\<close> holds the names kept so far, last
  first.
\<close>

definition clean_step :: "bool \<Rightarrow> string list \<Rightarrow> string \<Rightarrow> string list" where
  "clean_step rooted st c =
     (if c = ''.'' then st
      else if c = ''..'' then
        (case st of
           [] \<Rightarrow> if rooted then [] else [c]
         | x # xs \<Rightarrow> if x = ''..'' then c # st else xs)
      else c # st)"

definition clean_comps :: "bool \<Rightarrow> string list \<Rightarrow> string list" where
  "clean_comps rooted cs = rev (foldl (clean_step rooted) [] cs)"

definition path_Clean :: "string \<Rightarrow> string" where
  "path_Clean s =
     (let cs = clean_comps (is_abs s) (components s) in
      if is_abs s then CHR ''/'' # join_slash cs
      else if cs = [] then ''.'' else join_slash cs)"

text \<open>
  \<^verbatim>\<open>path.Join\<close>: empty elements are ignored, the rest joined with slashes and cleaned;
  the empty string when every element is empty.
\<close>

definition path_Join :: "string list \<Rightarrow> string" where
  "path_Join elems =
     (let es = filter (\<lambda>e. e \<noteq> []) elems in
      if es = [] then [] else path_Clean (join_slash es))"

subsection \<open>Path resolution\<close>

text \<open>
  Resolution walks the names of a path from a starting directory. \<open>.\<close> stays, \<open>..\<close>
  goes to the parent, a symbolic link is replaced by the location its target resolves to
  (\<open>chase\<close>), except for a link in the last position when the call does not follow
  (\<^verbatim>\<open>lstat\<close>, \<^verbatim>\<open>unlink\<close>, \<^verbatim>\<open>symlink\<close>). The result is a location, which may be vacant
  when only the last name is missing; a missing or non-directory name before the last is
  an error. Links nest at most \<open>link_max\<close> deep (\<open>ELOOP\<close> beyond).
\<close>

fun walk_with ::
  "(path \<Rightarrow> string \<Rightarrow> errno + path) \<Rightarrow> fsys \<Rightarrow> bool \<Rightarrow> path \<Rightarrow> string list \<Rightarrow> errno + path"
where
  "walk_with chase f follow cur [] = Inr cur"
| "walk_with chase f follow cur (c # cs) =
     (if c = ''.'' then walk_with chase f follow cur cs
      else if c = ''..'' then walk_with chase f follow (butlast cur) cs
      else
        (case f (cur @ [c]) of
           None \<Rightarrow> if cs = [] then Inr (cur @ [c]) else Inl ENOENT
         | Some Dir \<Rightarrow> walk_with chase f follow (cur @ [c]) cs
         | Some (File b) \<Rightarrow> if cs = [] then Inr (cur @ [c]) else Inl ENOTDIR
         | Some (Symlink t) \<Rightarrow>
             if cs = [] \<and> \<not> follow then Inr (cur @ [c])
             else
               (case chase cur t of
                  Inl e \<Rightarrow> Inl e
                | Inr q \<Rightarrow>
                    if cs = [] then Inr q
                    else
                      (case node_at f q of
                         None \<Rightarrow> Inl ENOENT
                       | Some Dir \<Rightarrow> walk_with chase f follow q cs
                       | Some n \<Rightarrow> Inl ENOTDIR))))"

primrec chase_n :: "nat \<Rightarrow> fsys \<Rightarrow> path \<Rightarrow> string \<Rightarrow> errno + path" where
  "chase_n 0 f cur t = Inl ELOOP"
| "chase_n (Suc k) f cur t =
     (if t = [] then Inl ENOENT
      else walk_with (chase_n k f) f True (if is_abs t then [] else cur) (components t))"

definition link_max :: nat where
  "link_max = 8"

definition walk :: "fsys \<Rightarrow> bool \<Rightarrow> path \<Rightarrow> string list \<Rightarrow> errno + path" where
  "walk f follow cur cs = walk_with (chase_n link_max f) f follow cur cs"

text \<open>
  Resolving a path string: from the root when it is absolute, from the working directory
  otherwise. The empty string names nothing.
\<close>

definition resolve_in :: "fsys \<Rightarrow> path option \<Rightarrow> bool \<Rightarrow> string \<Rightarrow> errno + path" where
  "resolve_in f wd follow s =
     (if s = [] then Inl ENOENT
      else if is_abs s then walk f follow [] (components s)
      else (case wd of None \<Rightarrow> Inl ENOENT | Some d \<Rightarrow> walk f follow d (components s)))"

subsection \<open>Go errors\<close>

text \<open>
  The error values the program can see: a system call's \<^verbatim>\<open>*PathError\<close> or
  \<^verbatim>\<open>*LinkError\<close> (with its errno), the sentinel \<^verbatim>\<open>os.ErrNotExist\<close>, the errors of
  \<^verbatim>\<open>exec.Cmd.Run\<close> (the child exited with a non-zero status, or could not be started),
  an \<^verbatim>\<open>errors.New\<close> string, and the failures of \<^verbatim>\<open>user.Current\<close> and \<^verbatim>\<open>os.Getwd\<close>.
\<close>

datatype go_error =
    PathError errno
  | ErrNotExist
  | ExitError nat
  | ExecError
  | ErrorString string
  | UserError
  | GetwdError

text \<open>\<^verbatim>\<open>os.IsNotExist\<close>: the sentinel, or a system error whose errno is \<open>ENOENT\<close>.\<close>

fun os_IsNotExist :: "go_error \<Rightarrow> bool" where
  "os_IsNotExist (PathError e) = (e = ENOENT)"
| "os_IsNotExist ErrNotExist = True"
| "os_IsNotExist _ = False"

subsection \<open>The world: file system, process environment and a log of the calls made\<close>

datatype event =
    EvStat string
  | EvOpen string
  | EvRemoveAll string
  | EvMkdirAll string
  | EvSymlink string string
  | EvRun string "string list"

record world =
  fs :: fsys
  cwd :: "path option"
  environ :: "string \<Rightarrow> string"
  homedir :: "string option"
  trace :: "event list"

definition log_event :: "event \<Rightarrow> world \<Rightarrow> world" where
  "log_event ev w = w\<lparr>trace := trace w @ [ev]\<rparr>"

definition resolve :: "bool \<Rightarrow> string \<Rightarrow> world \<Rightarrow> errno + path" where
  "resolve follow s w = resolve_in (fs w) (cwd w) follow s"

definition os_Getenv :: "string \<Rightarrow> world \<Rightarrow> string" where
  "os_Getenv name w = environ w name"

definition os_Getwd :: "world \<Rightarrow> go_error + string" where
  "os_Getwd w = (case cwd w of None \<Rightarrow> Inl GetwdError | Some d \<Rightarrow> Inr (CHR ''/'' # join_slash d))"

text \<open>\<^verbatim>\<open>filepath.Abs\<close> on Unix: clean an absolute path, join a relative one to the working directory.\<close>

definition filepath_Abs :: "string \<Rightarrow> world \<Rightarrow> go_error + string" where
  "filepath_Abs p w =
     (if is_abs p then Inr (path_Clean p)
      else (case os_Getwd w of Inl e \<Rightarrow> Inl e | Inr wd \<Rightarrow> Inr (path_Join [wd, p])))"

text \<open>\<^verbatim>\<open>os.Stat\<close> follows symbolic links; the \<^verbatim>\<open>FileInfo\<close> is the node found.\<close>

definition os_Stat :: "string \<Rightarrow> world \<Rightarrow> (go_error + node) \<times> world" where
  "os_Stat name w =
     (case resolve True name w of
        Inl e \<Rightarrow> (Inl (PathError e), log_event (EvStat name) w)
      | Inr p \<Rightarrow>
          (case node_at (fs w) p of
             None \<Rightarrow> (Inl (PathError ENOENT), log_event (EvStat name) w)
           | Some n \<Rightarrow> (Inr n, log_event (EvStat name) w)))"

definition info_IsDir :: "node \<Rightarrow> bool" where
  "info_IsDir n = (n = Dir)"

text \<open>
  \<^verbatim>\<open>os.Open\<close> follows symbolic links and opens files and directories alike; reading
  a directory through \<^verbatim>\<open>io.Copy\<close> fails with \<open>EISDIR\<close>.
\<close>

definition os_Open :: "string \<Rightarrow> world \<Rightarrow> (go_error + node) \<times> world" where
  "os_Open name w =
     (case resolve True name w of
        Inl e \<Rightarrow> (Inl (PathError e), log_event (EvOpen name) w)
      | Inr p \<Rightarrow>
          (case node_at (fs w) p of
             None \<Rightarrow> (Inl (PathError ENOENT), log_event (EvOpen name) w)
           | Some n \<Rightarrow> (Inr n, log_event (EvOpen name) w)))"

fun io_Copy :: "node \<Rightarrow> go_error + string" where
  "io_Copy (File b) = Inr b"
| "io_Copy Dir = Inl (PathError EISDIR)"
| "io_Copy (Symlink t) = Inl (PathError ELOOP)"

text \<open>
  \<^verbatim>\<open>os.RemoveAll\<close> removes the node the path names (a symbolic link itself, not its target)
  and everything below it. The empty path is no error and removes nothing. A path that is
  \<open>.\<close> or ends in \<open>/.\<close> is refused with \<open>EINVAL\<close> before anything is looked at, and
  nothing is removed (\<^verbatim>\<open>endsWithDot\<close> in Go's \<^verbatim>\<open>removeAll\<close>). A path that does not exist
  is no error; one that runs through a non-directory is. Permissions are left out.
\<close>

definition ends_with_dot :: "string \<Rightarrow> bool" where
  "ends_with_dot s =
     (s = ''.'' \<or> (2 \<le> length s \<and> last s = CHR ''.'' \<and> last (butlast s) = CHR ''/''))"

definition remove_tree :: "fsys \<Rightarrow> path \<Rightarrow> fsys" where
  "remove_tree f p = (\<lambda>q. if prefix p q then None else f q)"

definition os_RemoveAll :: "string \<Rightarrow> world \<Rightarrow> go_error option \<times> world" where
  "os_RemoveAll name w =
     (if name = [] then (None, log_event (EvRemoveAll name) w)
      else if ends_with_dot name then
        (Some (PathError EINVAL), log_event (EvRemoveAll name) w)
      else
        (case resolve False name w of
           Inl e \<Rightarrow>
             (if e = ENOENT then None else Some (PathError e), log_event (EvRemoveAll name) w)
         | Inr p \<Rightarrow>
             (None, log_event (EvRemoveAll name) (w\<lparr>fs := remove_tree (fs w) p\<rparr>))))"

text \<open>
  \<^verbatim>\<open>os.MkdirAll\<close> creates every missing directory along the path. It passes through
  existing directories and links to directories, and fails on a file (\<open>ENOTDIR\<close>) and on
  a dangling link (\<open>EEXIST\<close>, from \<^verbatim>\<open>mkdir\<close>). It returns the new file system and
  the location of the directory.
\<close>

fun mkdir_walk :: "fsys \<Rightarrow> path \<Rightarrow> string list \<Rightarrow> errno + (fsys \<times> path)" where
  "mkdir_walk f cur [] = Inr (f, cur)"
| "mkdir_walk f cur (c # cs) =
     (if c = ''.'' then mkdir_walk f cur cs
      else if c = ''..'' then mkdir_walk f (butlast cur) cs
      else
        (case f (cur @ [c]) of
           None \<Rightarrow> mkdir_walk (f(cur @ [c] \<mapsto> Dir)) (cur @ [c]) cs
         | Some Dir \<Rightarrow> mkdir_walk f (cur @ [c]) cs
         | Some (File b) \<Rightarrow> Inl ENOTDIR
         | Some (Symlink t) \<Rightarrow>
             (case chase_n link_max f cur t of
                Inl e \<Rightarrow> Inl e
              | Inr q \<Rightarrow>
                  (case node_at f q of
                     None \<Rightarrow> Inl EEXIST
                   | Some Dir \<Rightarrow> mkdir_walk f q cs
                   | Some n \<Rightarrow> Inl ENOTDIR))))"

definition os_MkdirAll :: "string \<Rightarrow> world \<Rightarrow> go_error option \<times> world" where
  "os_MkdirAll name w =
     (if name = [] then (Some (PathError ENOENT), log_event (EvMkdirAll name) w)
      else
        (case (if is_abs name then Some [] else cwd w) of
           None \<Rightarrow> (Some (PathError ENOENT), log_event (EvMkdirAll name) w)
         | Some d \<Rightarrow>
             (case mkdir_walk (fs w) d (components name) of
                Inl e \<Rightarrow> (Some (PathError e), log_event (EvMkdirAll name) w)
              | Inr (f', p) \<Rightarrow> (None, log_event (EvMkdirAll name) (w\<lparr>fs := f'\<rparr>)))))"

text \<open>
  \<^verbatim>\<open>os.Symlink oldname newname\<close> stores \<open>oldname\<close> as it is in a new link at
  \<open>newname\<close>; it fails with \<open>EEXIST\<close> when anything (a dangling link too) is there.
\<close>

definition os_Symlink :: "string \<Rightarrow> string \<Rightarrow> world \<Rightarrow> go_error option \<times> world" where
  "os_Symlink oldname newname w =
     (case resolve False newname w of
        Inl e \<Rightarrow> (Some (PathError e), log_event (EvSymlink oldname newname) w)
      | Inr p \<Rightarrow>
          (case node_at (fs w) p of
             Some n \<Rightarrow> (Some (PathError EEXIST), log_event (EvSymlink oldname newname) w)
           | None \<Rightarrow>
               (None, log_event (EvSymlink oldname newname) (w\<lparr>fs := (fs w)(p \<mapsto> Symlink oldname)\<rparr>))))"

subsection \<open>Child processes\<close>

text \<open>
  What a child process does is not the program's: a \<open>platform\<close> gives, for every
  command line, the exit status and the file system the child leaves behind (or that it
  could not be started). It also gives the digest function of \<^verbatim>\<open>crypto/sha1\<close>,
  from bytes to the 20 bytes of the sum.
\<close>

datatype proc_result = Exited nat | NotStarted

type_synonym program = "string list \<Rightarrow> path option \<Rightarrow> fsys \<Rightarrow> proc_result \<times> fsys"

record platform =
  sha1_Sum :: "string \<Rightarrow> string"
  programs :: "string \<Rightarrow> program"

text \<open>
  \<^verbatim>\<open>cp -R a b\<close>, the one child the program starts itself. The source is not followed
  when it is a link. When nothing is at \<open>b\<close> the tree at \<open>a\<close> is copied to \<open>b\<close>;
  when \<open>b\<close> is a directory (or a link to one) and holds nothing under the source's
  name, the tree is copied to there. It fails when the source is missing, when a path
  does not resolve, when the destination lies inside the source, and when a directory
  would replace a file or a dangling link. What is left (merging into an existing tree,
  replacing a file) is taken from the platform.
\<close>

definition graft :: "fsys \<Rightarrow> path \<Rightarrow> path \<Rightarrow> fsys" where
  "graft f src dst = (\<lambda>q. if prefix dst q then node_at f (src @ drop (length dst) q) else f q)"

definition cp_R :: "platform \<Rightarrow> string \<Rightarrow> string \<Rightarrow> path option \<Rightarrow> fsys \<Rightarrow> proc_result \<times> fsys" where
  "cp_R P a b wd f =
     (case resolve_in f wd False a of
        Inl e \<Rightarrow> (Exited 1, f)
      | Inr sp \<Rightarrow>
          (case node_at f sp of
             None \<Rightarrow> (Exited 1, f)
           | Some n \<Rightarrow>
               (case resolve_in f wd False b of
                  Inl e \<Rightarrow> (Exited 1, f)
                | Inr lp \<Rightarrow>
                    (case node_at f lp of
                       None \<Rightarrow> if prefix sp lp then (Exited 1, f) else (Exited 0, graft f sp lp)
                     | Some (File c) \<Rightarrow>
                         if n = Dir then (Exited 1, f) else programs P ''cp'' [''-R'', a, b] wd f
                     | Some m \<Rightarrow>
                         (case resolve_in f wd True b of
                            Inl e \<Rightarrow> (Exited 1, f)
                          | Inr dp \<Rightarrow>
                              if node_at f dp = Some Dir \<and> sp \<noteq> [] then
                                (if node_at f (dp @ [last sp]) = None \<and> \<not> prefix sp (dp @ [last sp])
                                 then (Exited 0, graft f sp (dp @ [last sp]))
                                 else programs P ''cp'' [''-R'', a, b] wd f)
                              else if n = Dir then (Exited 1, f)
                              else programs P ''cp'' [''-R'', a, b] wd f)))))"

text \<open>
  \<^verbatim>\<open>exec.Command(bin, args...).Run()\<close>: \<open>nil\<close> for exit status 0, an
  \<^verbatim>\<open>*ExitError\<close> for any other status, another error when the child did not start.
\<close>

definition spawn :: "platform \<Rightarrow> string \<Rightarrow> string list \<Rightarrow> path option \<Rightarrow> fsys \<Rightarrow> proc_result \<times> fsys" where
  "spawn P bin args wd f =
     (case args of
        [opt, a, b] \<Rightarrow>
          if bin = ''cp'' \<and> opt = ''-R'' then cp_R P a b wd f else programs P bin args wd f
      | _ \<Rightarrow> programs P bin args wd f)"

definition exec_Run :: "platform \<Rightarrow> string \<Rightarrow> string list \<Rightarrow> world \<Rightarrow> go_error option \<times> world" where
  "exec_Run P bin args w =
     (case spawn P bin args (cwd w) (fs w) of
        (Exited n, f') \<Rightarrow>
          (if n = 0 then None else Some (ExitError n), log_event (EvRun bin args) (w\<lparr>fs := f'\<rparr>))
      | (NotStarted, f') \<Rightarrow> (Some ExecError, log_event (EvRun bin args) w))"

text \<open>\<^verbatim>\<open>user.Current\<close>, of which the program reads the home directory only.\<close>

definition user_Current :: "world \<Rightarrow> go_error + string" where
  "user_Current w = (case homedir w of None \<Rightarrow> Inl UserError | Some h \<Rightarrow> Inr h)"

text \<open>
  \<^verbatim>\<open>fmt.Sprintf("%x", bytes)\<close>: two lowercase hexadecimal digits for every byte.
\<close>

definition hex_digit :: "nat \<Rightarrow> char" where
  "hex_digit n = ''0123456789abcdef'' ! n"

definition hex_byte :: "char \<Rightarrow> string" where
  "hex_byte c = [hex_digit (of_char c div 16), hex_digit (of_char c mod 16)]"

definition hex_encode :: "string \<Rightarrow> string" where
  "hex_encode bs = concat (map hex_byte bs)"

section \<open>The program\<close>

text \<open>
  \<^verbatim>\<open>src/main.go\<close> holds the program and, after a separator line, an earlier revision
  of it; the program itself (lines 1 to 259) is what is translated here. The earlier
  revision counts the arguments before it looks at the cache root and at \<^verbatim>\<open>-clean\<close>,
  starts its children without the terminal, and words its messages differently.

  The functions of \<^verbatim>\<open>main.go\<close>, each taking the world last and returning its Go
  results with the world it leaves. The three command-line flags are a record;
  \<^verbatim>\<open>flag.Args()\<close> is the list of positional arguments. The progress lines
  (\<^verbatim>\<open>Progress\<close>, \<^verbatim>\<open>Progressf\<close>, \<^verbatim>\<open>fmt.Printf\<close>) only write to the terminal and are
  left out. \<^verbatim>\<open>exitWith\<close> ends the run with status 1: \<open>main\<close> returns the message,
  and \<open>None\<close> for a run that returns from \<^verbatim>\<open>main\<close> (status 0).
\<close>

record flags =
  symlink :: bool
  force :: bool
  clean :: bool

datatype exit_msg =
    CacheDirProblems go_error
  | CleanError go_error
  | UsageError
  | CantHash go_error
  | RemoveOutputError go_error
  | OutputExists string
  | CacheLookupError go_error
  | BuildError go_error

definition run :: "platform \<Rightarrow> string \<Rightarrow> string list \<Rightarrow> world \<Rightarrow> go_error option \<times> world" where
  "run P bin args w = exec_Run P bin args w"

definition Copy :: "platform \<Rightarrow> string \<Rightarrow> string \<Rightarrow> world \<Rightarrow> go_error option \<times> world" where
  "Copy P a b w = run P ''cp'' [''-R'', a, b] w"

definition Install :: "platform \<Rightarrow> string \<Rightarrow> string \<Rightarrow> bool \<Rightarrow> world \<Rightarrow> go_error option \<times> world" where
  "Install P from to link w =
     (case filepath_Abs from w of
        Inl err \<Rightarrow> (Some err, w)
      | Inr from' \<Rightarrow>
          (case filepath_Abs to w of
             Inl err \<Rightarrow> (Some err, w)
           | Inr to' \<Rightarrow> if link then os_Symlink from' to' w else Copy P from' to' w))"

definition IsDir :: "string \<Rightarrow> world \<Rightarrow> (go_error + bool) \<times> world" where
  "IsDir d w =
     (case os_Stat d w of
        (Inl err, w1) \<Rightarrow> if os_IsNotExist err then (Inr False, w1) else (Inl err, w1)
      | (Inr info, w1) \<Rightarrow> (Inr (info_IsDir info), w1))"

definition GenerateAndCache ::
  "platform \<Rightarrow> string \<Rightarrow> string \<Rightarrow> string \<Rightarrow> string list \<Rightarrow> world \<Rightarrow> go_error option \<times> world"
where
  "GenerateAndCache P cache outputdir cmd args w =
     (case run P cmd args w of
        (Some err, w1) \<Rightarrow> (Some err, w1)
      | (None, w1) \<Rightarrow> Copy P outputdir cache w1)"

definition hashFile :: "platform \<Rightarrow> string \<Rightarrow> world \<Rightarrow> (go_error + string) \<times> world" where
  "hashFile P fname w =
     (case os_Open fname w of
        (Inl err, w1) \<Rightarrow> (Inl err, w1)
      | (Inr file, w1) \<Rightarrow>
          (case io_Copy file of
             Inl err \<Rightarrow> (Inl err, w1)
           | Inr bytes \<Rightarrow> (Inr (hex_encode (sha1_Sum P bytes)), w1)))"

definition ensureDir :: "string \<Rightarrow> world \<Rightarrow> go_error option \<times> world" where
  "ensureDir dir w =
     (case os_Stat dir w of
        (Inl err, w1) \<Rightarrow> if os_IsNotExist err then os_MkdirAll dir w1 else (Some err, w1)
      | (Inr info, w1) \<Rightarrow>
          if \<not> info_IsDir info then (Some (ErrorString (dir @ '' exists but is not a dir'')), w1)
          else (None, w1))"

text \<open>
  In \<^verbatim>\<open>cacheDir\<close> the result \<open>dir\<close> starts as the empty string, and the first test
  assigns the parameter to it when the parameter is empty.
\<close>

definition cacheDir :: "string \<Rightarrow> world \<Rightarrow> (go_error + string) \<times> world" where
  "cacheDir dirName w =
     (let dir0 = (if dirName = [] then dirName else []);
          dir1 = (if dir0 = [] then os_Getenv ''CACHE_DIR'' w else dir0)
      in
        (case (if dir1 = [] then
                 (case user_Current w of
                    Inl err \<Rightarrow> Inl err
                  | Inr home \<Rightarrow> Inr (path_Join [home, ''.dep-cache'']))
               else Inr dir1) of
           Inl err \<Rightarrow> (Inl err, w)
         | Inr dir \<Rightarrow>
             (case ensureDir dir w of
                (Some err, w1) \<Rightarrow> (Inl err, w1)
              | (None, w1) \<Rightarrow> (Inr dir, w1))))"

text \<open>
  \<open>main\<close>, after \<^verbatim>\<open>flag.Parse\<close>: the cache root, the \<^verbatim>\<open>-clean\<close> exit, the argument
  count, the hash and the cache path, then the two blocks the source marks
  \<^verbatim>\<open>// pre build\<close> (the guard of the output path, \<open>pre_build\<close>) and \<^verbatim>\<open>// build\<close>
  (the cache probe, then \<open>Install\<close> or \<open>GenerateAndCache\<close>, \<open>build\<close>).
\<close>

definition pre_build :: "flags \<Rightarrow> string \<Rightarrow> world \<Rightarrow> exit_msg option \<times> world" where
  "pre_build fl outputdir w =
     (if force fl then
        (case os_RemoveAll outputdir w of
           (Some err, w1) \<Rightarrow>
             if err \<noteq> ErrNotExist then (Some (RemoveOutputError err), w1) else (None, w1)
         | (None, w1) \<Rightarrow> (None, w1))
      else
        (case os_Stat outputdir w of
           (Inl err, w1) \<Rightarrow>
             if \<not> os_IsNotExist err then (Some (OutputExists outputdir), w1) else (None, w1)
         | (Inr info, w1) \<Rightarrow> (Some (OutputExists outputdir), w1)))"

definition build ::
  "platform \<Rightarrow> flags \<Rightarrow> string \<Rightarrow> string \<Rightarrow> string \<Rightarrow> string list \<Rightarrow> world \<Rightarrow> exit_msg option \<times> world"
where
  "build P fl depDir outputdir cmd args w =
     (case IsDir depDir w of
        (Inl err, w1) \<Rightarrow> (Some (CacheLookupError err), w1)
      | (Inr cached, w1) \<Rightarrow>
          (case (if cached then Install P depDir outputdir (symlink fl) w1
                 else GenerateAndCache P depDir outputdir cmd args w1) of
             (Some err, w2) \<Rightarrow> (Some (BuildError err), w2)
           | (None, w2) \<Rightarrow> (None, w2)))"

definition main :: "platform \<Rightarrow> flags \<Rightarrow> string list \<Rightarrow> world \<Rightarrow> exit_msg option \<times> world" where
  "main P fl argv w =
     (case cacheDir [] w of
        (Inl err, w1) \<Rightarrow> (Some (CacheDirProblems err), w1)
      | (Inr cacheStore, w1) \<Rightarrow>
          if clean fl then
            (case os_RemoveAll cacheStore w1 of
               (Some err, w2) \<Rightarrow> (Some (CleanError err), w2)
             | (None, w2) \<Rightarrow> (None, w2))
          else if length argv < 3 then (Some UsageError, w1)
          else
            (let depDesc = argv ! 0; outputdir = argv ! 1; cmd = argv ! 2; args = drop 3 argv in
             case hashFile P depDesc w1 of
               (Inl err, w2) \<Rightarrow> (Some (CantHash err), w2)
             | (Inr h, w2) \<Rightarrow>
                 (let depDir = path_Join [cacheStore, h] in
                  case pre_build fl outputdir w2 of
                    (Some msg, w3) \<Rightarrow> (Some msg, w3)
                  | (None, w3) \<Rightarrow> build P fl depDir outputdir cmd args w3)))"

section \<open>Notions used in the statements\<close>

text \<open>
  A file system is well formed when the parent of every node is a directory; a world is
  well formed when its file system is and its working directory is a directory.
\<close>

definition wf_fs :: "fsys \<Rightarrow> bool" where
  "wf_fs f = (\<forall>p. f p \<noteq> None \<longrightarrow> node_at f (butlast p) = Some Dir)"

definition wf_world :: "world \<Rightarrow> bool" where
  "wf_world w = (wf_fs (fs w) \<and> (case cwd w of None \<Rightarrow> True | Some d \<Rightarrow> node_at (fs w) d = Some Dir))"

text \<open>The child processes started so far, in order.\<close>

definition runs :: "world \<Rightarrow> (string \<times> string list) list" where
  "runs w = concat (map (\<lambda>ev. case ev of EvRun b a \<Rightarrow> [(b, a)] | _ \<Rightarrow> []) (trace w))"

text \<open>
  The worlds a run of \<open>main\<close> passes through: after \<^verbatim>\<open>cacheDir\<close>, after
  \<^verbatim>\<open>hashFile\<close>, and after the guard, where the cache is probed. A run reaches the guard
  when it is no \<^verbatim>\<open>-clean\<close> run, has its three arguments, and finds its cache root
  \<open>store\<close> and its key \<open>h\<close>; it reaches the probe when the guard lets it pass.
\<close>

definition w_cache :: "world \<Rightarrow> world" where
  "w_cache w = snd (cacheDir [] w)"

definition w_hash :: "platform \<Rightarrow> string list \<Rightarrow> world \<Rightarrow> world" where
  "w_hash P argv w = snd (hashFile P (argv ! 0) (w_cache w))"

definition w_probe :: "platform \<Rightarrow> flags \<Rightarrow> string list \<Rightarrow> world \<Rightarrow> world" where
  "w_probe P fl argv w = snd (pre_build fl (argv ! 1) (w_hash P argv w))"

definition reaches_guard :: "platform \<Rightarrow> flags \<Rightarrow> string list \<Rightarrow> world \<Rightarrow> string \<Rightarrow> string \<Rightarrow> bool" where
  "reaches_guard P fl argv w store h =
     (\<not> clean fl \<and> 3 \<le> length argv \<and> fst (cacheDir [] w) = Inr store
      \<and> fst (hashFile P (argv ! 0) (w_cache w)) = Inr h)"

definition reaches_probe :: "platform \<Rightarrow> flags \<Rightarrow> string list \<Rightarrow> world \<Rightarrow> string \<Rightarrow> string \<Rightarrow> bool" where
  "reaches_probe P fl argv w store h =
     (reaches_guard P fl argv w store h \<and> fst (pre_build fl (argv ! 1) (w_hash P argv w)) = None)"

text \<open>How \<open>main\<close> ends on the result of \<open>Install\<close> or \<open>GenerateAndCache\<close>.\<close>

definition exit_build :: "go_error option \<times> world \<Rightarrow> exit_msg option \<times> world" where
  "exit_build r = (case r of (Some err, w) \<Rightarrow> (Some (BuildError err), w) | (None, w) \<Rightarrow> (None, w))"

text \<open>
  The cache root in the words of the specification, for a call without an explicit
  parameter: the environment variable when it is set, otherwise \<open>.dep-cache\<close> in the
  home directory.
\<close>

definition spec_cache_root :: "world \<Rightarrow> go_error + string" where
  "spec_cache_root w =
     (if os_Getenv ''CACHE_DIR'' w \<noteq> [] then Inr (os_Getenv ''CACHE_DIR'' w)
      else (case user_Current w of
              Inl err \<Rightarrow> Inl err
            | Inr home \<Rightarrow> Inr (path_Join [home, ''.dep-cache''])))"

section \<open>Example worlds\<close>

text \<open>
  A small machine for the concrete runs below: a home directory, a working directory
  \<open>/w\<close> with the dependency file \<open>spec\<close>, no cache yet. Of its programs, \<open>mk\<close>
  writes the directory \<open>/w/out\<close> with one file, \<open>false\<close> exits with status 1, and
  nothing else can be started. Its digest is the identity, so that the key of \<open>spec\<close>
  (content \<open>A\<close>) is \<open>41\<close>.
\<close>

definition demo_fs :: fsys where
  "demo_fs =
     (Map.empty([''home''] \<mapsto> Dir, [''home'', ''u''] \<mapsto> Dir, [''w''] \<mapsto> Dir,
                [''w'', ''spec''] \<mapsto> File ''A''))"

definition demo_world :: world where
  "demo_world =
     \<lparr>fs = demo_fs, cwd = Some [''w''], environ = (\<lambda>_. []), homedir = Some ''/home/u'', trace = []\<rparr>"

definition demo_programs :: "string \<Rightarrow> program" where
  "demo_programs bin args wd f =
     (if bin = ''mk'' then
        (Exited 0, f([''w'', ''out''] \<mapsto> Dir, [''w'', ''out'', ''f''] \<mapsto> File ''hi''))
      else if bin = ''false'' then (Exited 1, f)
      else (NotStarted, f))"

definition demo_platform :: platform where
  "demo_platform = \<lparr>sha1_Sum = (\<lambda>b. b), programs = demo_programs\<rparr>"

text \<open>The same machine with a cache entry for \<open>spec\<close>.\<close>

definition cached_fs :: fsys where
  "cached_fs =
     demo_fs([''home'', ''u'', ''.dep-cache''] \<mapsto> Dir,
             [''home'', ''u'', ''.dep-cache'', ''41''] \<mapsto> Dir,
             [''home'', ''u'', ''.dep-cache'', ''41'', ''f''] \<mapsto> File ''hi'')"

definition cached_world :: world where
  "cached_world = demo_world\<lparr>fs := cached_fs\<rparr>"

text \<open>The same machine with a regular file where the cache entry of \<open>spec\<close> would be.\<close>

definition filecache_world :: world where
  "filecache_world =
     demo_world\<lparr>fs := demo_fs([''home'', ''u'', ''.dep-cache''] \<mapsto> Dir,
                               [''home'', ''u'', ''.dep-cache'', ''41''] \<mapsto> File ''x'')\<rparr>"

text \<open>The flags as \<^verbatim>\<open>flag.Parse\<close> leaves them when none is given.\<close>

definition default_flags :: flags where
  "default_flags = \<lparr>symlink = True, force = False, clean = False\<rparr>"


text \<open>The first machine with \<^verbatim>\<open>CACHE_DIR=cache\<close> in the environment.\<close>

definition rel_world :: world where
  "rel_world = demo_world\<lparr>environ := (\<lambda>name. if name = ''CACHE_DIR'' then ''cache'' else [])\<rparr>"


section \<open>Facts about path resolution\<close>

text \<open>
  Resolution only reads the nodes it passes: a path that resolves to an existing node
  resolves to the same node in every larger file system. And an error on the way does
  not depend on whether the last name is followed.
\<close>

lemma node_at_mono: "f \<subseteq>\<^sub>m f' \<Longrightarrow> node_at f p = Some n \<Longrightarrow> node_at f' p = Some n"
  by (auto simp: node_at_def map_le_def dom_def split: if_splits)

lemma map_le_Some: "f \<subseteq>\<^sub>m f' \<Longrightarrow> f p = Some n \<Longrightarrow> f' p = Some n"
  by (auto simp: map_le_def dom_def)

lemma walk_with_mono:
  assumes sub: "f \<subseteq>\<^sub>m f'"
    and ch: "\<And>cur t q. chase cur t = Inr q \<Longrightarrow> node_at f q \<noteq> None \<Longrightarrow> chase' cur t = Inr q"
  shows "walk_with chase f fl cur cs = Inr p \<Longrightarrow> node_at f p \<noteq> None
         \<Longrightarrow> walk_with chase' f' fl cur cs = Inr p"
proof (induction cs arbitrary: cur)
  case Nil
  then show ?case by simp
next
  case (Cons c cs)
  show ?case
  proof (cases "c = ''.'' \<or> c = ''..''")
    case True
    with Cons show ?thesis by auto
  next
    case False
    note nodots = False
    show ?thesis
    proof (cases "f (cur @ [c])")
      case None
      with Cons.prems nodots show ?thesis
        by (auto simp: node_at_def split: if_splits)
    next
      case (Some n)
      then have f': "f' (cur @ [c]) = Some n" using sub by (rule map_le_Some[rotated])
      show ?thesis
      proof (cases n)
        case (File b)
        with Cons.prems nodots Some f' show ?thesis by (auto split: if_splits)
      next
        case Dir
        with Cons nodots Some f' show ?thesis by auto
      next
        case (Symlink t)
        show ?thesis
        proof (cases "cs = [] \<and> \<not> fl")
          case True
          with Cons.prems nodots Some f' Symlink show ?thesis by auto
        next
          case False
          with Cons.prems nodots Some Symlink obtain q where q: "chase cur t = Inr q"
            by (auto split: sum.splits)
          show ?thesis
          proof (cases "cs = []")
            case True
            with Cons.prems nodots Some Symlink q False have "p = q" by auto
            with Cons.prems q ch have "chase' cur t = Inr q" by blast
            with True nodots f' Symlink False \<open>p = q\<close> show ?thesis by auto
          next
            case nonempty: False
            with Cons.prems nodots Some Symlink q have d: "node_at f q = Some Dir"
              and w: "walk_with chase f fl q cs = Inr p"
              by (auto split: option.splits node.splits)
            from d q ch have q': "chase' cur t = Inr q" by auto
            from d sub have d': "node_at f' q = Some Dir" by (rule node_at_mono[rotated])
            from Cons.IH[OF w Cons.prems(2)] nonempty nodots f' Symlink q' d'
            show ?thesis by auto
          qed
        qed
      qed
    qed
  qed
qed

lemma chase_n_mono:
  "f \<subseteq>\<^sub>m f' \<Longrightarrow> chase_n k f cur t = Inr q \<Longrightarrow> node_at f q \<noteq> None \<Longrightarrow> chase_n k f' cur t = Inr q"
proof (induction k arbitrary: cur t q)
  case 0
  then show ?case by simp
next
  case (Suc k)
  from Suc.prems(2) have t: "t \<noteq> []" by (auto split: if_splits)
  with Suc.prems(2) have
    "walk_with (chase_n k f) f True (if is_abs t then [] else cur) (components t) = Inr q"
    by simp
  from walk_with_mono[OF Suc.prems(1) _ this Suc.prems(3), of "chase_n k f'"] Suc.IH[OF Suc.prems(1)] t
  show ?case by simp
qed


lemma walk_with_nofollow_error:
  "walk_with chase f False cur cs = Inl e \<Longrightarrow> walk_with chase f True cur cs = Inl e"
proof (induction cs arbitrary: cur)
  case Nil
  then show ?case by simp
next
  case (Cons c cs)
  then show ?case
    by (auto split: option.splits node.splits sum.splits if_splits)
qed

lemma walk_follow_nofollow:
  "walk f True cur cs = Inr p \<Longrightarrow> \<exists>q. walk f False cur cs = Inr q"
  unfolding walk_def using walk_with_nofollow_error[of "chase_n link_max f" f cur cs]
  by (cases "walk_with (chase_n link_max f) f False cur cs") auto

subsection \<open>Creating directories\<close>

text \<open>
  In a well-formed file system, what \<^verbatim>\<open>os.MkdirAll\<close> returns is a larger well-formed
  file system in which the path resolves to a directory.
\<close>

lemma wf_fs_parent: "wf_fs f \<Longrightarrow> node_at f cur = Some Dir \<Longrightarrow> node_at f (butlast cur) = Some Dir"
  by (cases "cur = []") (auto simp: wf_fs_def node_at_def)

lemma wf_fs_mkdir:
  assumes "wf_fs f" "node_at f cur = Some Dir"
  shows "wf_fs (f(cur @ [c] \<mapsto> Dir))"
  unfolding wf_fs_def
proof (intro allI impI)
  fix p assume p: "(f(cur @ [c] \<mapsto> Dir)) p \<noteq> None"
  show "node_at (f(cur @ [c] \<mapsto> Dir)) (butlast p) = Some Dir"
  proof (cases "p = cur @ [c]")
    case True
    with assms(2) show ?thesis by (auto simp: node_at_def)
  next
    case False
    with p have "f p \<noteq> None" by simp
    with assms(1) have "node_at f (butlast p) = Some Dir" by (simp add: wf_fs_def)
    then show ?thesis by (auto simp: node_at_def)
  qed
qed

lemma mkdir_walk_correct:
  "wf_fs f \<Longrightarrow> node_at f cur = Some Dir \<Longrightarrow> mkdir_walk f cur cs = Inr (f', q)
   \<Longrightarrow> f \<subseteq>\<^sub>m f' \<and> wf_fs f' \<and> node_at f' q = Some Dir \<and> walk f' True cur cs = Inr q"
proof (induction cs arbitrary: f cur)
  case Nil
  then show ?case by (simp add: walk_def)
next
  case (Cons c cs)
  show ?case
  proof (cases "c = ''.''")
    case True
    with Cons show ?thesis by (simp add: walk_def)
  next
    case notdot: False
    show ?thesis
    proof (cases "c = ''..''")
      case True
      from Cons.prems(1,2) have "node_at f (butlast cur) = Some Dir" by (rule wf_fs_parent)
      with Cons.IH[OF Cons.prems(1) this] Cons.prems(3) True show ?thesis
        by (simp add: walk_def)
    next
      case notdd: False
      show ?thesis
      proof (cases "f (cur @ [c])")
        case None
        let ?f1 = "f(cur @ [c] \<mapsto> Dir)"
        from None Cons.prems(3) notdot notdd have m: "mkdir_walk ?f1 (cur @ [c]) cs = Inr (f', q)"
          by simp
        have wf1: "wf_fs ?f1" using Cons.prems(1,2) by (rule wf_fs_mkdir)
        have d1: "node_at ?f1 (cur @ [c]) = Some Dir" by (simp add: node_at_def)
        from Cons.IH[OF wf1 d1 m] have ih: "?f1 \<subseteq>\<^sub>m f'" "wf_fs f'" "node_at f' q = Some Dir"
          "walk f' True (cur @ [c]) cs = Inr q" by blast+
        from None have "f \<subseteq>\<^sub>m ?f1" by (auto simp: map_le_def)
        from this ih(1) have sub: "f \<subseteq>\<^sub>m f'" by (rule map_le_trans)
        from ih(1) have "f' (cur @ [c]) = Some Dir" by (auto simp: map_le_def dom_def)
        with ih(4) notdot notdd have "walk f' True cur (c # cs) = Inr q" by (simp add: walk_def)
        with sub ih show ?thesis by simp
      next
        case (Some n)
        show ?thesis
        proof (cases n)
          case (File b)
          with Some Cons.prems(3) notdot notdd show ?thesis by simp
        next
          case Dir
          with Some Cons.prems(3) notdot notdd have m: "mkdir_walk f (cur @ [c]) cs = Inr (f', q)"
            by simp
          from Some Dir have d: "node_at f (cur @ [c]) = Some Dir" by (simp add: node_at_def)
          from Cons.IH[OF Cons.prems(1) d m] have ih: "f \<subseteq>\<^sub>m f'" "wf_fs f'" "node_at f' q = Some Dir"
            "walk f' True (cur @ [c]) cs = Inr q" by blast+
          from ih(1) Some Dir have "f' (cur @ [c]) = Some Dir" by (auto simp: map_le_def dom_def)
          with ih notdot notdd show ?thesis by (simp add: walk_def)
        next
          case (Symlink t)
          with Some Cons.prems(3) notdot notdd obtain q0 where
            q0: "chase_n link_max f cur t = Inr q0" and d0: "node_at f q0 = Some Dir"
            and m: "mkdir_walk f q0 cs = Inr (f', q)"
            by (auto split: sum.splits option.splits node.splits)
          from Cons.IH[OF Cons.prems(1) d0 m] have ih: "f \<subseteq>\<^sub>m f'" "wf_fs f'" "node_at f' q = Some Dir"
            "walk f' True q0 cs = Inr q" by blast+
          from ih(1) Some Symlink have l: "f' (cur @ [c]) = Some (Symlink t)"
            by (auto simp: map_le_def dom_def)
          from ih(1) q0 d0 have q0': "chase_n link_max f' cur t = Inr q0"
            by (auto intro: chase_n_mono)
          from ih(1) d0 have d0': "node_at f' q0 = Some Dir" by (rule node_at_mono)
          have "walk f' True cur (c # cs) = Inr q"
          proof (cases "cs = []")
            case True
            with m have "q = q0" by simp
            with True l q0' notdot notdd show ?thesis by (simp add: walk_def)
          next
            case False
            with l q0' d0' ih(4) notdot notdd show ?thesis by (simp add: walk_def)
          qed
          with ih show ?thesis by simp
        qed
      qed
    qed
  qed
qed

section \<open>Facts about path strings\<close>













section \<open>Facts about the calls and the blocks of \<open>main\<close>\<close>

subsection \<open>The log\<close>

lemma log_event_simps [simp]:
  "fs (log_event ev w) = fs w" "cwd (log_event ev w) = cwd w"
  "environ (log_event ev w) = environ w" "homedir (log_event ev w) = homedir w"
  "trace (log_event ev w) = trace w @ [ev]"
  by (simp_all add: log_event_def)

lemma resolve_log_event [simp]: "resolve fl s (log_event ev w) = resolve fl s w"
  by (simp add: resolve_def)

lemma filepath_Abs_log_event [simp]: "filepath_Abs p (log_event ev w) = filepath_Abs p w"
  by (simp add: filepath_Abs_def os_Getwd_def)

lemma runs_log_event [simp]:
  "runs (log_event ev w) = runs w @ (case ev of EvRun b a \<Rightarrow> [(b, a)] | _ \<Rightarrow> [])"
  by (simp add: runs_def)

lemma wf_world_log_event [simp]: "wf_world (log_event ev w) = wf_world w"
  by (simp add: wf_world_def split: option.splits)

subsection \<open>The system calls\<close>

lemma snd_os_Stat [simp]: "snd (os_Stat name w) = log_event (EvStat name) w"
  by (simp add: os_Stat_def split: sum.splits option.splits)

lemma snd_os_Open [simp]: "snd (os_Open name w) = log_event (EvOpen name) w"
  by (simp add: os_Open_def split: sum.splits option.splits)

lemma fst_os_Stat:
  "fst (os_Stat name w) =
     (case resolve True name w of Inl e \<Rightarrow> Inl (PathError e)
      | Inr p \<Rightarrow> (case node_at (fs w) p of None \<Rightarrow> Inl (PathError ENOENT) | Some n \<Rightarrow> Inr n))"
  by (simp add: os_Stat_def split: sum.splits option.splits)

lemma snd_IsDir [simp]: "snd (IsDir d w) = log_event (EvStat d) w"
  using snd_os_Stat[of d w]
  by (cases "os_Stat d w") (auto simp: IsDir_def split: sum.splits simp del: snd_os_Stat)

lemma fst_IsDir:
  "fst (IsDir d w) =
     (case fst (os_Stat d w) of Inl err \<Rightarrow> if os_IsNotExist err then Inr False else Inl err
      | Inr info \<Rightarrow> Inr (info = Dir))"
  by (cases "os_Stat d w") (auto simp: IsDir_def info_IsDir_def split: sum.splits)

lemma snd_hashFile [simp]: "snd (hashFile P fname w) = log_event (EvOpen fname) w"
  using snd_os_Open[of fname w]
  by (cases "os_Open fname w") (auto simp: hashFile_def split: sum.splits simp del: snd_os_Open)

lemma ends_with_dot_nonempty: "ends_with_dot name \<Longrightarrow> name \<noteq> []"
  by (auto simp: ends_with_dot_def)


lemma os_RemoveAll_plain:
  "\<not> ends_with_dot name \<Longrightarrow>
   os_RemoveAll name w =
     (if name = [] then (None, log_event (EvRemoveAll name) w)
      else case resolve False name w of
        Inl e \<Rightarrow> (if e = ENOENT then None else Some (PathError e), log_event (EvRemoveAll name) w)
      | Inr p \<Rightarrow> (None, log_event (EvRemoveAll name) (w\<lparr>fs := remove_tree (fs w) p\<rparr>)))"
  by (simp add: os_RemoveAll_def)


lemma runs_fs_update [simp]: "runs (w\<lparr>fs := f\<rparr>) = runs w"
  by (simp add: runs_def)

lemma runs_os_RemoveAll [simp]: "runs (snd (os_RemoveAll name w)) = runs w"
  by (simp add: os_RemoveAll_def split: sum.splits)

lemma trace_os_MkdirAll [simp]: "trace (snd (os_MkdirAll name w)) = trace w @ [EvMkdirAll name]"
  by (simp add: os_MkdirAll_def split: sum.splits option.splits prod.splits)

lemma runs_os_MkdirAll [simp]: "runs (snd (os_MkdirAll name w)) = runs w"
  by (simp add: os_MkdirAll_def split: sum.splits option.splits prod.splits)

lemma runs_os_Symlink [simp]: "runs (snd (os_Symlink a b w)) = runs w"
  by (simp add: os_Symlink_def split: sum.splits option.splits)

lemma runs_exec_Run [simp]: "runs (snd (exec_Run P bin args w)) = runs w @ [(bin, args)]"
  by (simp add: exec_Run_def split: prod.splits proc_result.splits)

lemma runs_ensureDir [simp]: "runs (snd (ensureDir dir w)) = runs w"
  using snd_os_Stat[of dir w]
  by (cases "os_Stat dir w") (auto simp: ensureDir_def split: sum.splits simp del: snd_os_Stat)

lemma runs_cacheDir [simp]: "runs (snd (cacheDir d w)) = runs w"
proof -
  have "\<And>dir. runs (snd (case ensureDir dir w of (Some err, w1) \<Rightarrow> (Inl err, w1) | (None, w1) \<Rightarrow> (Inr dir, w1))) = runs w"
    subgoal for dir using runs_ensureDir[of dir w]
      by (cases "ensureDir dir w") (auto split: option.splits)
    done
  then show ?thesis
    by (simp add: cacheDir_def Let_def split: sum.splits)
qed

lemma runs_pre_build [simp]: "runs (snd (pre_build fl out w)) = runs w"
proof (cases "force fl")
  case True
  then show ?thesis using runs_os_RemoveAll[of out w]
    by (cases "os_RemoveAll out w") (auto simp: pre_build_def split: option.splits)
next
  case False
  then show ?thesis using snd_os_Stat[of out w]
    by (cases "os_Stat out w") (auto simp: pre_build_def split: sum.splits simp del: snd_os_Stat)
qed

subsection \<open>\<open>main\<close>, block by block\<close>


lemma main_reaches_guard:
  "reaches_guard P fl argv w store h
   \<Longrightarrow> main P fl argv w =
       (case pre_build fl (argv ! 1) (w_hash P argv w) of
          (Some msg, w3) \<Rightarrow> (Some msg, w3)
        | (None, w3) \<Rightarrow> build P fl (path_Join [store, h]) (argv ! 1) (argv ! 2) (drop 3 argv) w3)"
  by (cases "cacheDir [] w"; cases "hashFile P (argv ! 0) (snd (cacheDir [] w))")
     (simp add: main_def reaches_guard_def w_cache_def w_hash_def Let_def del: One_nat_def)

lemma main_reaches_probe:
  "reaches_probe P fl argv w store h
   \<Longrightarrow> main P fl argv w =
       build P fl (path_Join [store, h]) (argv ! 1) (argv ! 2) (drop 3 argv) (w_probe P fl argv w)"
  by (cases "pre_build fl (argv ! 1) (w_hash P argv w)")
     (simp add: main_reaches_guard reaches_probe_def w_probe_def)

lemma build_cases:
  "build P fl depDir out cmd args w =
     (case fst (IsDir depDir w) of
        Inl err \<Rightarrow> (Some (CacheLookupError err), log_event (EvStat depDir) w)
      | Inr cached \<Rightarrow>
          exit_build (if cached then Install P depDir out (symlink fl) (log_event (EvStat depDir) w)
                      else GenerateAndCache P depDir out cmd args (log_event (EvStat depDir) w)))"
  using snd_IsDir[of depDir w]
  by (cases "IsDir depDir w") (auto simp: build_def exit_build_def split: sum.splits prod.splits option.splits simp del: snd_IsDir)

section \<open>The cache probe\<close>

text \<open>
  Claim C7. \<open>IsDir\<close> reports a hit exactly when the path resolves (links followed) to
  a directory; when \<^verbatim>\<open>os.Stat\<close> fails with a "does not exist" error, which it does exactly
  when the path or one of its parents is missing, it reports a miss and no error; every
  other error of \<^verbatim>\<open>os.Stat\<close> is returned as it is. The probe leaves the file system alone.
\<close>

theorem IsDir_reports:
  "(fst (IsDir d w) = Inr True \<longleftrightarrow> (\<exists>p. resolve True d w = Inr p \<and> node_at (fs w) p = Some Dir))
   \<and> (\<forall>err. fst (os_Stat d w) = Inl err \<and> os_IsNotExist err \<longrightarrow> fst (IsDir d w) = Inr False)
   \<and> (\<forall>err. fst (os_Stat d w) = Inl err \<and> \<not> os_IsNotExist err \<longrightarrow> fst (IsDir d w) = Inl err)
   \<and> (fst (os_Stat d w) = Inl (PathError ENOENT) \<longleftrightarrow>
        resolve True d w = Inl ENOENT \<or> (\<exists>p. resolve True d w = Inr p \<and> node_at (fs w) p = None))
   \<and> fs (snd (IsDir d w)) = fs w"
  by (auto simp: fst_IsDir fst_os_Stat split: sum.splits option.splits)

theorem IsDir_reports_witness:
  "fst (IsDir ''/home'' demo_world) = Inr True
   \<and> fst (IsDir ''/nothing'' demo_world) = Inr False
   \<and> fst (IsDir ''/w/spec/x'' demo_world) = Inl (PathError ENOTDIR)"
proof -
  have a: "resolve True ''/home'' demo_world = Inr [''home''] \<and> node_at (fs demo_world) [''home''] = Some Dir"
    by code_simp
  have b: "fst (os_Stat ''/nothing'' demo_world) = Inl (PathError ENOENT) \<and> os_IsNotExist (PathError ENOENT)"
    by code_simp
  have c: "fst (os_Stat ''/w/spec/x'' demo_world) = Inl (PathError ENOTDIR) \<and> \<not> os_IsNotExist (PathError ENOTDIR)"
    by code_simp
  from a IsDir_reports[of "''/home''" demo_world] have 1: "fst (IsDir ''/home'' demo_world) = Inr True"
    by blast
  from b IsDir_reports[of "''/nothing''" demo_world] have 2: "fst (IsDir ''/nothing'' demo_world) = Inr False"
    by blast
  from c IsDir_reports[of "''/w/spec/x''" demo_world] have 3: "fst (IsDir ''/w/spec/x'' demo_world) = Inl (PathError ENOTDIR)"
    by blast
  from 1 2 3 show ?thesis by blast
qed

text \<open>
  Claim C10. When the cache path resolves to something that is not a directory (a
  regular file), \<open>IsDir\<close> answers \<open>false\<close> with no error, and a run that has reached
  the probe goes on with \<open>GenerateAndCache\<close>: it ends as that call ends.
\<close>

theorem nondir_cache_path_is_miss:
  assumes "reaches_probe P fl argv w store h"
    and "resolve True (path_Join [store, h]) (w_probe P fl argv w) = Inr p"
    and "node_at (fs (w_probe P fl argv w)) p = Some n" and "n \<noteq> Dir"
  shows "fst (IsDir (path_Join [store, h]) (w_probe P fl argv w)) = Inr False
       \<and> main P fl argv w =
           exit_build (GenerateAndCache P (path_Join [store, h]) (argv ! 1) (argv ! 2) (drop 3 argv)
             (log_event (EvStat (path_Join [store, h])) (w_probe P fl argv w)))"
proof -
  from assms(2-4) have miss: "fst (IsDir (path_Join [store, h]) (w_probe P fl argv w)) = Inr False"
    by (simp add: fst_IsDir fst_os_Stat)
  with main_reaches_probe[OF assms(1)] show ?thesis
    by (simp add: build_cases)
qed

theorem nondir_cache_path_is_miss_witness:
  "reaches_probe demo_platform default_flags [''spec'', ''out'', ''mk''] filecache_world ''/home/u/.dep-cache'' ''41''
   \<and> resolve True (path_Join [''/home/u/.dep-cache'', ''41''])
        (w_probe demo_platform default_flags [''spec'', ''out'', ''mk''] filecache_world)
       = Inr [''home'', ''u'', ''.dep-cache'', ''41'']
   \<and> node_at (fs (w_probe demo_platform default_flags [''spec'', ''out'', ''mk''] filecache_world))
        [''home'', ''u'', ''.dep-cache'', ''41''] = Some (File ''x'')
   \<and> File ''x'' \<noteq> Dir
   \<and> fst (IsDir (path_Join [''/home/u/.dep-cache'', ''41''])
        (w_probe demo_platform default_flags [''spec'', ''out'', ''mk''] filecache_world)) = Inr False
   \<and> main demo_platform default_flags [''spec'', ''out'', ''mk''] filecache_world =
       exit_build (GenerateAndCache demo_platform (path_Join [''/home/u/.dep-cache'', ''41''])
         ([''spec'', ''out'', ''mk''] ! 1) ([''spec'', ''out'', ''mk''] ! 2) (drop 3 [''spec'', ''out'', ''mk''])
         (log_event (EvStat (path_Join [''/home/u/.dep-cache'', ''41'']))
           (w_probe demo_platform default_flags [''spec'', ''out'', ''mk''] filecache_world)))"
proof -
  have h1: "reaches_probe demo_platform default_flags [''spec'', ''out'', ''mk''] filecache_world ''/home/u/.dep-cache'' ''41''"
    by code_simp
  have h2: "resolve True (path_Join [''/home/u/.dep-cache'', ''41''])
        (w_probe demo_platform default_flags [''spec'', ''out'', ''mk''] filecache_world)
       = Inr [''home'', ''u'', ''.dep-cache'', ''41'']"
    by code_simp
  have h3: "node_at (fs (w_probe demo_platform default_flags [''spec'', ''out'', ''mk''] filecache_world))
        [''home'', ''u'', ''.dep-cache'', ''41''] = Some (File ''x'')"
    by code_simp
  have h4: "File ''x'' \<noteq> Dir" by simp
  from nondir_cache_path_is_miss[OF h1 h2 h3 h4] h1 h2 h3 h4 show ?thesis by blast
qed

section \<open>The cache key\<close>

lemma hex_digit_inj: "a < 16 \<Longrightarrow> b < 16 \<Longrightarrow> hex_digit a = hex_digit b \<Longrightarrow> a = b"
proof -
  have d: "distinct ''0123456789abcdef''" by simp
  have l: "length ''0123456789abcdef'' = 16" by simp
  show "a < 16 \<Longrightarrow> b < 16 \<Longrightarrow> hex_digit a = hex_digit b \<Longrightarrow> a = b"
    unfolding hex_digit_def using nth_eq_iff_index_eq[OF d, of a b] l by metis
qed

lemma hex_digit_range: "a < 16 \<Longrightarrow> hex_digit a \<in> set ''0123456789abcdef''"
  unfolding hex_digit_def by (rule nth_mem) simp

lemma of_char_div_16: "of_char c div 16 < (16::nat)"
proof -
  have "(of_char c :: nat) < 16 * 16" using nat_of_char_less_256[of c] by simp
  then show ?thesis by (rule less_mult_imp_div_less)
qed

lemma hex_byte_inj: "hex_byte c = hex_byte d \<Longrightarrow> c = d"
proof -
  assume "hex_byte c = hex_byte d"
  then have "hex_digit (of_char c div 16) = hex_digit (of_char d div 16)"
    and "hex_digit (of_char c mod 16) = hex_digit (of_char d mod 16)"
    by (simp_all add: hex_byte_def)
  then have "(of_char c :: nat) div 16 = of_char d div 16" and "(of_char c :: nat) mod 16 = of_char d mod 16"
    by (auto intro!: hex_digit_inj of_char_div_16)
  then have "(of_char c :: nat) = of_char d"
    by (metis div_mult_mod_eq)
  then show "c = d" by simp
qed

lemma hex_encode_inj: "hex_encode xs = hex_encode ys \<Longrightarrow> xs = ys"
proof (induction xs arbitrary: ys)
  case Nil
  then show ?case by (cases ys) (simp_all add: hex_encode_def hex_byte_def)
next
  case (Cons x xs)
  then obtain y ys' where ys: "ys = y # ys'"
    by (cases ys) (simp_all add: hex_encode_def hex_byte_def)
  with Cons.prems have "hex_byte x = hex_byte y" and "hex_encode xs = hex_encode ys'"
    by (simp_all add: hex_encode_def hex_byte_def)
  with Cons.IH ys show ?case by (simp add: hex_byte_inj)
qed

lemma hex_encode_length: "length (hex_encode xs) = 2 * length xs"
  by (induction xs) (simp_all add: hex_encode_def hex_byte_def)

lemma hex_encode_digits: "set (hex_encode xs) \<subseteq> set ''0123456789abcdef''"
proof (induction xs)
  case Nil
  then show ?case by (simp add: hex_encode_def)
next
  case (Cons x xs)
  have "hex_digit (of_char x div 16) \<in> set ''0123456789abcdef''"
    by (rule hex_digit_range) (rule of_char_div_16)
  moreover have "hex_digit (of_char x mod 16) \<in> set ''0123456789abcdef''"
    by (rule hex_digit_range) simp
  ultimately show ?case using Cons by (simp add: hex_encode_def hex_byte_def)
qed

lemma fst_hashFile_file:
  "resolve True fname w = Inr p \<Longrightarrow> node_at (fs w) p = Some (File b)
   \<Longrightarrow> fst (hashFile P fname w) = Inr (hex_encode (sha1_Sum P b))"
  by (simp add: hashFile_def os_Open_def)

text \<open>
  Claim C2. For a readable file, \<open>hashFile\<close> returns the lowercase hexadecimal
  writing of the digest of the file's content: two digits of \<open>0123456789abcdef\<close> for
  every byte of the digest. Two files with the same content get the same key, in whatever
  worlds they are read; and two files get the same key only when their digests are equal,
  so that keys collide exactly where the digest does (how rarely is a property of SHA-1,
  which the platform supplies).
\<close>

theorem hashFile_key:
  assumes "resolve True f1 w1 = Inr p1" and "node_at (fs w1) p1 = Some (File b1)"
    and "resolve True f2 w2 = Inr p2" and "node_at (fs w2) p2 = Some (File b2)"
  shows "fst (hashFile P f1 w1) = Inr (hex_encode (sha1_Sum P b1))
       \<and> (b1 = b2 \<longrightarrow> fst (hashFile P f1 w1) = fst (hashFile P f2 w2))
       \<and> (fst (hashFile P f1 w1) = fst (hashFile P f2 w2) \<longleftrightarrow> sha1_Sum P b1 = sha1_Sum P b2)
       \<and> length (hex_encode (sha1_Sum P b1)) = 2 * length (sha1_Sum P b1)
       \<and> set (hex_encode (sha1_Sum P b1)) \<subseteq> set ''0123456789abcdef''"
  using fst_hashFile_file[OF assms(1,2), of P] fst_hashFile_file[OF assms(3,4), of P]
    hex_encode_inj[of "sha1_Sum P b1" "sha1_Sum P b2"] hex_encode_length hex_encode_digits
  by auto

theorem hashFile_key_witness:
  "resolve True ''spec'' demo_world = Inr [''w'', ''spec'']
   \<and> node_at (fs demo_world) [''w'', ''spec''] = Some (File ''A'')
   \<and> resolve True ''/w/spec'' cached_world = Inr [''w'', ''spec'']
   \<and> node_at (fs cached_world) [''w'', ''spec''] = Some (File ''A'')
   \<and> fst (hashFile demo_platform ''spec'' demo_world) = Inr ''41''
   \<and> fst (hashFile demo_platform ''spec'' demo_world) = fst (hashFile demo_platform ''/w/spec'' cached_world)"
proof -
  have h1: "resolve True ''spec'' demo_world = Inr [''w'', ''spec'']" by code_simp
  have h2: "node_at (fs demo_world) [''w'', ''spec''] = Some (File ''A'')" by code_simp
  have h3: "resolve True ''/w/spec'' cached_world = Inr [''w'', ''spec'']" by code_simp
  have h4: "node_at (fs cached_world) [''w'', ''spec''] = Some (File ''A'')" by code_simp
  have e: "hex_encode (sha1_Sum demo_platform ''A'') = ''41''" by code_simp
  note t = hashFile_key[OF h1 h2 h3 h4, of demo_platform]
  from t have "fst (hashFile demo_platform ''spec'' demo_world) = Inr (hex_encode (sha1_Sum demo_platform ''A''))"
    by blast
  with e have c1: "fst (hashFile demo_platform ''spec'' demo_world) = Inr ''41''" by simp
  from t have c2: "fst (hashFile demo_platform ''spec'' demo_world) = fst (hashFile demo_platform ''/w/spec'' cached_world)"
    by blast
  from h1 h2 h3 h4 c1 c2 show ?thesis by blast
qed

section \<open>The two ways of the build\<close>

lemma runs_Install:
  "runs (snd (Install P from to link w)) =
     runs w @ (if link then []
               else case filepath_Abs from w of Inl e \<Rightarrow> []
                    | Inr a \<Rightarrow> (case filepath_Abs to w of Inl e \<Rightarrow> [] | Inr b \<Rightarrow> [(''cp'', [''-R'', a, b])]))"
  by (simp add: Install_def Copy_def run_def split: sum.splits)

lemma snd_exit_build [simp]: "snd (exit_build r) = snd r"
  by (cases r) (simp add: exit_build_def split: option.splits)


lemma runs_w_cache [simp]: "runs (w_cache w) = runs w"
  by (simp add: w_cache_def)

lemma runs_w_hash [simp]: "runs (w_hash P argv w) = runs w"
  by (simp add: w_hash_def)

lemma runs_w_probe [simp]: "runs (w_probe P fl argv w) = runs w"
  by (simp add: w_probe_def)

lemma reaches_probe_command:
  "reaches_probe P fl (argv ! 0 # argv ! 1 # cmd # args) w store h = reaches_probe P fl argv w store h"
  if "3 \<le> length argv"
  using that by (simp add: reaches_probe_def reaches_guard_def w_hash_def)

lemma w_probe_command:
  "w_probe P fl (argv ! 0 # argv ! 1 # cmd # args) w = w_probe P fl argv w"
  by (simp add: w_probe_def w_hash_def)

text \<open>
  Claim C3, as the code has it. The cache is probed after the guard of the output path
  has run. When a run reaches the probe and the probe finds a directory at the cache
  path, \<open>main\<close> ends as \<open>Install\<close> ends. The command and its arguments have no part in
  the run: any other command line in their place gives the same run; with the symlink
  flag no child process is started at all, and without it the only one is the
  installer's own \<^verbatim>\<open>cp -R\<close> from the cache entry to the output path.
\<close>

theorem cache_hit_installs:
  assumes "reaches_probe P fl argv w store h"
    and "fst (IsDir (path_Join [store, h]) (w_probe P fl argv w)) = Inr True"
  shows "main P fl argv w =
           exit_build (Install P (path_Join [store, h]) (argv ! 1) (symlink fl)
             (log_event (EvStat (path_Join [store, h])) (w_probe P fl argv w)))
       \<and> (\<forall>cmd' args'. main P fl (argv ! 0 # argv ! 1 # cmd' # args') w = main P fl argv w)
       \<and> (symlink fl \<longrightarrow> runs (snd (main P fl argv w)) = runs w)
       \<and> (\<not> symlink fl \<longrightarrow>
            runs (snd (main P fl argv w)) = runs w
            \<or> (\<exists>a b. filepath_Abs (path_Join [store, h]) (w_probe P fl argv w) = Inr a
                  \<and> filepath_Abs (argv ! 1) (w_probe P fl argv w) = Inr b
                  \<and> runs (snd (main P fl argv w)) = runs w @ [(''cp'', [''-R'', a, b])]))"
proof -
  let ?d = "path_Join [store, h]"
  let ?wp = "w_probe P fl argv w"
  have m: "main P fl argv w = exit_build (Install P ?d (argv ! 1) (symlink fl) (log_event (EvStat ?d) ?wp))"
    using main_reaches_probe[OF assms(1)] assms(2) by (simp add: build_cases)
  have len: "3 \<le> length argv" using assms(1) by (simp add: reaches_probe_def reaches_guard_def)
  have c: "main P fl (argv ! 0 # argv ! 1 # cmd' # args') w = main P fl argv w" for cmd' args'
  proof -
    let ?argv' = "argv ! 0 # argv ! 1 # cmd' # args'"
    have r: "reaches_probe P fl ?argv' w store h"
      using assms(1) reaches_probe_command[OF len] by blast
    have "main P fl ?argv' w = build P fl ?d (?argv' ! 1) (?argv' ! 2) (drop 3 ?argv') (w_probe P fl ?argv' w)"
      by (rule main_reaches_probe[OF r])
    also have "\<dots> = exit_build (Install P ?d (argv ! 1) (symlink fl) (log_event (EvStat ?d) ?wp))"
      unfolding w_probe_command using assms(2) by (simp add: build_cases)
    finally show ?thesis using m by simp
  qed
  have r: "runs (snd (main P fl argv w)) =
     runs w @ (if symlink fl then []
               else case filepath_Abs ?d ?wp of Inl e \<Rightarrow> []
                    | Inr a \<Rightarrow> (case filepath_Abs (argv ! 1) ?wp of Inl e \<Rightarrow> [] | Inr b \<Rightarrow> [(''cp'', [''-R'', a, b])]))"
    by (simp add: m runs_Install del: One_nat_def cong: sum.case_cong)
  from m c r show ?thesis
    by (auto split: sum.splits)
qed

theorem cache_hit_installs_witness:
  "reaches_probe demo_platform default_flags [''spec'', ''out'', ''mk''] cached_world ''/home/u/.dep-cache'' ''41''
   \<and> fst (IsDir (path_Join [''/home/u/.dep-cache'', ''41''])
        (w_probe demo_platform default_flags [''spec'', ''out'', ''mk''] cached_world)) = Inr True
   \<and> symlink default_flags
   \<and> runs (snd (main demo_platform default_flags [''spec'', ''out'', ''mk''] cached_world)) = runs cached_world
   \<and> main demo_platform default_flags [''spec'', ''out'', ''false'', ''x''] cached_world
     = main demo_platform default_flags [''spec'', ''out'', ''mk''] cached_world"
proof -
  have h1: "reaches_probe demo_platform default_flags [''spec'', ''out'', ''mk''] cached_world ''/home/u/.dep-cache'' ''41''"
    by code_simp
  have h2: "fst (IsDir (path_Join [''/home/u/.dep-cache'', ''41''])
        (w_probe demo_platform default_flags [''spec'', ''out'', ''mk''] cached_world)) = Inr True"
    by code_simp
  have h3: "symlink default_flags" by code_simp
  note t = cache_hit_installs[OF h1 h2]
  from t h3 have r: "runs (snd (main demo_platform default_flags [''spec'', ''out'', ''mk''] cached_world)) = runs cached_world"
    by blast
  from t have "main demo_platform default_flags ([''spec'', ''out'', ''mk''] ! 0 # [''spec'', ''out'', ''mk''] ! 1 # ''false'' # [''x'']) cached_world
     = main demo_platform default_flags [''spec'', ''out'', ''mk''] cached_world"
    by blast
  then have c: "main demo_platform default_flags [''spec'', ''out'', ''false'', ''x''] cached_world
     = main demo_platform default_flags [''spec'', ''out'', ''mk''] cached_world"
    by simp
  from h1 h2 h3 r c show ?thesis by blast
qed

text \<open>
  The claim as it is written fails for a cache entry that is there when the run starts
  and gone when the cache is probed. With the force flag and the cache entry itself as
  the output path, the guard removes the entry, the probe finds nothing, and the command
  is run.
\<close>

theorem force_removes_cache_entry_counterexample:
  "force (default_flags\<lparr>force := True\<rparr>) \<and> \<not> clean (default_flags\<lparr>force := True\<rparr>)
   \<and> fst (cacheDir [] cached_world) = Inr ''/home/u/.dep-cache''
   \<and> fst (hashFile demo_platform ''spec'' cached_world) = Inr ''41''
   \<and> path_Join [''/home/u/.dep-cache'', ''41''] = ''/home/u/.dep-cache/41''
   \<and> fst (IsDir ''/home/u/.dep-cache/41'' cached_world) = Inr True
   \<and> reaches_probe demo_platform (default_flags\<lparr>force := True\<rparr>)
        [''spec'', ''/home/u/.dep-cache/41'', ''mk''] cached_world ''/home/u/.dep-cache'' ''41''
   \<and> fst (IsDir ''/home/u/.dep-cache/41''
        (w_probe demo_platform (default_flags\<lparr>force := True\<rparr>)
           [''spec'', ''/home/u/.dep-cache/41'', ''mk''] cached_world)) = Inr False
   \<and> runs (snd (main demo_platform (default_flags\<lparr>force := True\<rparr>)
        [''spec'', ''/home/u/.dep-cache/41'', ''mk''] cached_world))
       = [(''mk'', []), (''cp'', [''-R'', ''/home/u/.dep-cache/41'', ''/home/u/.dep-cache/41''])]"
  by code_simp

lemma fst_exec_Run:
  "fst (exec_Run P bin args w) =
     (case fst (spawn P bin args (cwd w) (fs w)) of
        Exited n \<Rightarrow> if n = 0 then None else Some (ExitError n)
      | NotStarted \<Rightarrow> Some ExecError)"
  by (simp add: exec_Run_def split: prod.splits proc_result.splits)

lemma fs_exec_Run:
  "fs (snd (exec_Run P bin args w)) =
     (case fst (spawn P bin args (cwd w) (fs w)) of
        Exited n \<Rightarrow> snd (spawn P bin args (cwd w) (fs w))
      | NotStarted \<Rightarrow> fs w)"
  by (simp add: exec_Run_def split: prod.splits proc_result.splits)

lemma trace_exec_Run [simp]: "trace (snd (exec_Run P bin args w)) = trace w @ [EvRun bin args]"
  by (simp add: exec_Run_def split: prod.splits proc_result.splits)

text \<open>
  Claim C4. When the command does not start or exits with a status other than 0,
  \<open>GenerateAndCache\<close> returns the error of the run and does nothing more: its result is
  that of running the command, the command is the only child process (no \<^verbatim>\<open>cp\<close>
  follows), and the file system is as the command left it, untouched when the command did
  not start. A location the command has left alone, the path of the cache entry among
  them, is as it was.
\<close>

theorem generate_failure_not_cached:
  assumes "fst (spawn P cmd args (cwd w) (fs w)) \<noteq> Exited 0"
  shows "fst (GenerateAndCache P cache outputdir cmd args w) =
           Some (case fst (spawn P cmd args (cwd w) (fs w)) of
                   Exited n \<Rightarrow> ExitError n | NotStarted \<Rightarrow> ExecError)
       \<and> GenerateAndCache P cache outputdir cmd args w = run P cmd args w
       \<and> trace (snd (GenerateAndCache P cache outputdir cmd args w)) = trace w @ [EvRun cmd args]
       \<and> fs (snd (GenerateAndCache P cache outputdir cmd args w)) =
           (case fst (spawn P cmd args (cwd w) (fs w)) of
              Exited n \<Rightarrow> snd (spawn P cmd args (cwd w) (fs w)) | NotStarted \<Rightarrow> fs w)
       \<and> (\<forall>p. snd (spawn P cmd args (cwd w) (fs w)) p = fs w p
              \<longrightarrow> fs (snd (GenerateAndCache P cache outputdir cmd args w)) p = fs w p)"
proof -
  from assms have e: "fst (run P cmd args w) =
      Some (case fst (spawn P cmd args (cwd w) (fs w)) of Exited n \<Rightarrow> ExitError n | NotStarted \<Rightarrow> ExecError)"
    by (auto simp: run_def fst_exec_Run split: proc_result.splits)
  then have g: "GenerateAndCache P cache outputdir cmd args w = run P cmd args w"
    by (cases "run P cmd args w") (simp add: GenerateAndCache_def)
  show ?thesis
    unfolding g using e by (auto simp: run_def fs_exec_Run split: proc_result.splits)
qed

theorem generate_failure_not_cached_witness:
  "fst (spawn demo_platform ''false'' [] (cwd demo_world) (fs demo_world)) \<noteq> Exited 0
   \<and> fst (GenerateAndCache demo_platform ''/home/u/.dep-cache/41'' ''out'' ''false'' [] demo_world)
       = Some (ExitError 1)
   \<and> trace (snd (GenerateAndCache demo_platform ''/home/u/.dep-cache/41'' ''out'' ''false'' [] demo_world))
       = trace demo_world @ [EvRun ''false'' []]"
proof -
  have h: "fst (spawn demo_platform ''false'' [] (cwd demo_world) (fs demo_world)) \<noteq> Exited 0"
    by code_simp
  have v: "fst (spawn demo_platform ''false'' [] (cwd demo_world) (fs demo_world)) = Exited 1"
    by code_simp
  note t = generate_failure_not_cached[OF h, of "''/home/u/.dep-cache/41''" "''out''"]
  from t have "fst (GenerateAndCache demo_platform ''/home/u/.dep-cache/41'' ''out'' ''false'' [] demo_world)
       = Some (case fst (spawn demo_platform ''false'' [] (cwd demo_world) (fs demo_world)) of
                 Exited n \<Rightarrow> ExitError n | NotStarted \<Rightarrow> ExecError)"
    by blast
  with v have c1: "fst (GenerateAndCache demo_platform ''/home/u/.dep-cache/41'' ''out'' ''false'' [] demo_world)
       = Some (ExitError 1)"
    by simp
  from t have c2: "trace (snd (GenerateAndCache demo_platform ''/home/u/.dep-cache/41'' ''out'' ''false'' [] demo_world))
       = trace demo_world @ [EvRun ''false'' []]"
    by blast
  from h c1 c2 show ?thesis by blast
qed

section \<open>The cache root\<close>


lemma os_MkdirAll_usable:
  assumes "wf_world w" and "fst (os_MkdirAll dir w) = None"
  shows "\<exists>p. resolve True dir (snd (os_MkdirAll dir w)) = Inr p
           \<and> node_at (fs (snd (os_MkdirAll dir w))) p = Some Dir"
    and "wf_world (snd (os_MkdirAll dir w))"
proof -
  from assms(2) have ne: "dir \<noteq> []" by (auto simp: os_MkdirAll_def)
  with assms(2) obtain d where d: "(if is_abs dir then Some [] else cwd w) = Some d"
    by (cases "if is_abs dir then Some [] else cwd w") (auto simp: os_MkdirAll_def)
  with assms(2) ne obtain f' p where m: "mkdir_walk (fs w) d (components dir) = Inr (f', p)"
    by (cases "mkdir_walk (fs w) d (components dir)") (auto simp: os_MkdirAll_def)
  from d assms(1) have dd: "node_at (fs w) d = Some Dir"
    by (auto simp: wf_world_def node_at_def split: if_splits option.splits)
  from assms(1) have "wf_fs (fs w)" by (simp add: wf_world_def)
  from mkdir_walk_correct[OF this dd m]
  have c: "fs w \<subseteq>\<^sub>m f'" "wf_fs f'" "node_at f' p = Some Dir" "walk f' True d (components dir) = Inr p"
    by blast+
  from ne d m have w': "snd (os_MkdirAll dir w) = log_event (EvMkdirAll dir) (w\<lparr>fs := f'\<rparr>)"
    by (simp add: os_MkdirAll_def)
  from d c(4) ne have "resolve True dir (snd (os_MkdirAll dir w)) = Inr p"
    unfolding w' by (auto simp: resolve_def resolve_in_def split: if_splits)
  with c(3) show "\<exists>p. resolve True dir (snd (os_MkdirAll dir w)) = Inr p
           \<and> node_at (fs (snd (os_MkdirAll dir w))) p = Some Dir"
    unfolding w' by simp
  from assms(1) c(1,2) show "wf_world (snd (os_MkdirAll dir w))"
    unfolding w' by (auto simp: wf_world_def split: option.splits intro: node_at_mono)
qed

lemma ensureDir_cases:
  "ensureDir dir w =
     (case fst (os_Stat dir w) of
        Inl err \<Rightarrow> if os_IsNotExist err then os_MkdirAll dir (log_event (EvStat dir) w)
                   else (Some err, log_event (EvStat dir) w)
      | Inr info \<Rightarrow> if info \<noteq> Dir then (Some (ErrorString (dir @ '' exists but is not a dir'')), log_event (EvStat dir) w)
                    else (None, log_event (EvStat dir) w))"
  using snd_os_Stat[of dir w]
  by (cases "os_Stat dir w") (auto simp: ensureDir_def info_IsDir_def split: sum.splits simp del: snd_os_Stat)

lemma ensureDir_usable:
  assumes "wf_world w" and "fst (ensureDir dir w) = None"
  shows "\<exists>p. resolve True dir (snd (ensureDir dir w)) = Inr p
           \<and> node_at (fs (snd (ensureDir dir w))) p = Some Dir"
    and "wf_world (snd (ensureDir dir w))"
proof -
  show "\<exists>p. resolve True dir (snd (ensureDir dir w)) = Inr p
           \<and> node_at (fs (snd (ensureDir dir w))) p = Some Dir"
  proof (cases "fst (os_Stat dir w)")
    case (Inl err)
    with assms(2) have e: "ensureDir dir w = os_MkdirAll dir (log_event (EvStat dir) w)"
      by (auto simp: ensureDir_cases split: if_splits)
    from assms have "wf_world (log_event (EvStat dir) w)" by simp
    from os_MkdirAll_usable(1)[OF this] assms(2) show ?thesis unfolding e by simp
  next
    case (Inr info)
    with assms(2) have "info = Dir" and e: "ensureDir dir w = (None, log_event (EvStat dir) w)"
      by (auto simp: ensureDir_cases split: if_splits)
    with Inr show ?thesis
      by (auto simp: fst_os_Stat split: sum.splits option.splits)
  qed
  show "wf_world (snd (ensureDir dir w))"
  proof (cases "fst (os_Stat dir w)")
    case (Inl err)
    with assms(2) have e: "ensureDir dir w = os_MkdirAll dir (log_event (EvStat dir) w)"
      by (auto simp: ensureDir_cases split: if_splits)
    from assms have "wf_world (log_event (EvStat dir) w)" by simp
    from os_MkdirAll_usable(2)[OF this] assms(2) show ?thesis unfolding e by simp
  next
    case (Inr info)
    with assms show ?thesis
      by (auto simp: ensureDir_cases split: if_splits)
  qed
qed

lemma cacheDir_parameter: "cacheDir dirName w = cacheDir [] w"
  by (simp add: cacheDir_def)

lemma cacheDir_eq:
  "cacheDir [] w =
     (case spec_cache_root w of
        Inl err \<Rightarrow> (Inl err, w)
      | Inr dir \<Rightarrow>
          (case ensureDir dir w of
             (Some err, w1) \<Rightarrow> (Inl err, w1)
           | (None, w1) \<Rightarrow> (Inr dir, w1)))"
  by (simp add: cacheDir_def spec_cache_root_def Let_def split: sum.splits)

lemma cacheDir_success:
  assumes "fst (cacheDir [] w) = Inr dir"
  shows "spec_cache_root w = Inr dir" and "fst (ensureDir dir w) = None"
    and "w_cache w = snd (ensureDir dir w)"
  using assms unfolding w_cache_def cacheDir_eq
  by (cases "spec_cache_root w"; cases "ensureDir (projr (spec_cache_root w)) w";
      auto split: option.splits)+

lemma cacheDir_usable:
  assumes "wf_world w" and "fst (cacheDir [] w) = Inr dir"
  shows "\<exists>p. resolve True dir (w_cache w) = Inr p \<and> node_at (fs (w_cache w)) p = Some Dir"
    and "wf_world (w_cache w)"
  using ensureDir_usable[OF assms(1) cacheDir_success(2)[OF assms(2)]]
  unfolding cacheDir_success(3)[OF assms(2)] by blast+

lemma walk_with_vacant_follow:
  "walk_with chase f False cur cs = Inr p \<Longrightarrow> node_at f p = None
   \<Longrightarrow> walk_with chase f True cur cs = Inr p"
proof (induction cs arbitrary: cur)
  case Nil
  then show ?case by simp
next
  case (Cons c cs)
  then show ?case
    by (auto simp: node_at_def split: option.splits node.splits sum.splits if_splits)
qed

lemma mkdir_walk_vacant:
  "wf_fs f \<Longrightarrow> node_at f cur = Some Dir
   \<Longrightarrow> walk_with (chase_n link_max f) f False cur cs = Inr p \<Longrightarrow> node_at f p = None
   \<Longrightarrow> mkdir_walk f cur cs = Inr (f(p \<mapsto> Dir), p)"
proof (induction cs arbitrary: cur)
  case Nil
  then show ?case by simp
next
  case (Cons c cs)
  show ?case
  proof (cases "c = ''.''")
    case True
    with Cons show ?thesis by simp
  next
    case notdot: False
    show ?thesis
    proof (cases "c = ''..''")
      case True
      from Cons.prems(1,2) have "node_at f (butlast cur) = Some Dir" by (rule wf_fs_parent)
      from Cons.IH[OF Cons.prems(1) this] Cons.prems(3,4) True show ?thesis by simp
    next
      case notdd: False
      show ?thesis
      proof (cases "f (cur @ [c])")
        case None
        with Cons.prems(3) notdot notdd have "cs = []" and "p = cur @ [c]"
          by (auto split: if_splits)
        with None notdot notdd show ?thesis by (simp del: fun_upd_apply)
      next
        case (Some n)
        show ?thesis
        proof (cases n)
          case (File b)
          with Some Cons.prems(3,4) notdot notdd show ?thesis
            by (auto simp: node_at_def split: if_splits)
        next
          case Dir
          with Some have d: "node_at f (cur @ [c]) = Some Dir" by (simp add: node_at_def)
          from Some Dir Cons.prems(3) notdot notdd
          have "walk_with (chase_n link_max f) f False (cur @ [c]) cs = Inr p" by simp
          from Cons.IH[OF Cons.prems(1) d this Cons.prems(4)] Some Dir notdot notdd
          show ?thesis by simp
        next
          case (Symlink t)
          show ?thesis
          proof (cases "cs = []")
            case True
            with Some Symlink Cons.prems(3,4) notdot notdd show ?thesis
              by (auto simp: node_at_def split: if_splits)
          next
            case False
            with Some Symlink Cons.prems(3) notdot notdd obtain q where
              q: "chase_n link_max f cur t = Inr q" "node_at f q = Some Dir"
              "walk_with (chase_n link_max f) f False q cs = Inr p"
              by (auto split: sum.splits option.splits node.splits)
            from Cons.IH[OF Cons.prems(1) q(2,3) Cons.prems(4)] Some Symlink q(1,2) notdot notdd
            show ?thesis by simp
          qed
        qed
      qed
    qed
  qed
qed

lemma cacheDir_absent:
  assumes "wf_world w" and "spec_cache_root w = Inr dir"
    and "resolve False dir w = Inr p" and "node_at (fs w) p = None"
  shows "fst (cacheDir [] w) = Inr dir" and "fs (w_cache w) = (fs w)(p \<mapsto> Dir)"
proof -
  from assms(3) have ne: "dir \<noteq> []" by (auto simp: resolve_def resolve_in_def)
  from assms(3) ne obtain d where d: "(if is_abs dir then Some [] else cwd w) = Some d"
    and wk: "walk_with (chase_n link_max (fs w)) (fs w) False d (components dir) = Inr p"
    by (auto simp: resolve_def resolve_in_def walk_def split: if_splits option.splits)
  from d assms(1) have dd: "node_at (fs w) d = Some Dir"
    by (auto simp: wf_world_def node_at_def split: if_splits option.splits)
  from assms(1) have wf: "wf_fs (fs w)" by (simp add: wf_world_def)
  from walk_with_vacant_follow[OF wk assms(4)] d ne
  have "resolve True dir w = Inr p"
    by (auto simp: resolve_def resolve_in_def walk_def split: if_splits)
  with assms(4) have st: "fst (os_Stat dir w) = Inl (PathError ENOENT)"
    by (simp add: fst_os_Stat)
  from mkdir_walk_vacant[OF wf dd wk assms(4)] d ne
  have mk: "os_MkdirAll dir (log_event (EvStat dir) w)
      = (None, log_event (EvMkdirAll dir) (log_event (EvStat dir) w\<lparr>fs := (fs w)(p \<mapsto> Dir)\<rparr>))"
    by (cases "is_abs dir") (auto simp: os_MkdirAll_def)
  from st have "ensureDir dir w = os_MkdirAll dir (log_event (EvStat dir) w)"
    by (simp add: ensureDir_cases)
  with mk assms(2) show "fst (cacheDir [] w) = Inr dir" and "fs (w_cache w) = (fs w)(p \<mapsto> Dir)"
    by (simp_all add: cacheDir_eq w_cache_def)
qed


text \<open>
  Claim C6, as the code has it. Called without an explicit parameter, \<open>cacheDir\<close> takes
  the cache root from \<^verbatim>\<open>CACHE_DIR\<close> when that is set and from the home directory
  otherwise, and returns it as it is, absolute or not, once \<open>ensureDir\<close> has accepted
  it. It fails when the home directory is needed and unknown, and when the path names
  something that is not a directory; when the path does not exist the outcome is that of
  \<^verbatim>\<open>os.MkdirAll\<close>. In a well-formed world a path whose last name only is missing is
  created as a directory, and a path that \<open>cacheDir\<close> returns names a directory
  afterwards.
\<close>

theorem cacheDir_resolution:
  "cacheDir [] w =
     (case spec_cache_root w of
        Inl err \<Rightarrow> (Inl err, w)
      | Inr dir \<Rightarrow>
          (case ensureDir dir w of
             (Some err, w1) \<Rightarrow> (Inl err, w1)
           | (None, w1) \<Rightarrow> (Inr dir, w1)))
   \<and> (os_Getenv ''CACHE_DIR'' w = [] \<and> homedir w = None \<longrightarrow> cacheDir [] w = (Inl UserError, w))
   \<and> (\<forall>dir p n. spec_cache_root w = Inr dir \<and> resolve True dir w = Inr p
          \<and> node_at (fs w) p = Some n \<and> n \<noteq> Dir
        \<longrightarrow> fst (cacheDir [] w) = Inl (ErrorString (dir @ '' exists but is not a dir'')))
   \<and> (\<forall>dir err. spec_cache_root w = Inr dir \<and> fst (os_Stat dir w) = Inl err \<and> os_IsNotExist err
        \<longrightarrow> fst (cacheDir [] w) =
            (case fst (os_MkdirAll dir (log_event (EvStat dir) w)) of
               None \<Rightarrow> Inr dir | Some e \<Rightarrow> Inl e))
   \<and> (\<forall>dir p. wf_world w \<and> spec_cache_root w = Inr dir \<and> resolve False dir w = Inr p
          \<and> node_at (fs w) p = None
        \<longrightarrow> fst (cacheDir [] w) = Inr dir \<and> fs (w_cache w) = (fs w)(p \<mapsto> Dir))
   \<and> (\<forall>dir. wf_world w \<and> fst (cacheDir [] w) = Inr dir
        \<longrightarrow> spec_cache_root w = Inr dir
          \<and> (\<exists>p. resolve True dir (w_cache w) = Inr p \<and> node_at (fs (w_cache w)) p = Some Dir))"
proof (intro conjI allI impI)
  show "cacheDir [] w =
     (case spec_cache_root w of
        Inl err \<Rightarrow> (Inl err, w)
      | Inr dir \<Rightarrow>
          (case ensureDir dir w of
             (Some err, w1) \<Rightarrow> (Inl err, w1)
           | (None, w1) \<Rightarrow> (Inr dir, w1)))"
    by (rule cacheDir_eq)
next
  assume "os_Getenv ''CACHE_DIR'' w = [] \<and> homedir w = None"
  then show "cacheDir [] w = (Inl UserError, w)"
    by (simp add: cacheDir_eq spec_cache_root_def user_Current_def)
next
  fix dir p n
  assume "spec_cache_root w = Inr dir \<and> resolve True dir w = Inr p
          \<and> node_at (fs w) p = Some n \<and> n \<noteq> Dir"
  then show "fst (cacheDir [] w) = Inl (ErrorString (dir @ '' exists but is not a dir''))"
    by (simp add: cacheDir_eq ensureDir_cases fst_os_Stat)
next
  fix dir err
  assume a: "spec_cache_root w = Inr dir \<and> fst (os_Stat dir w) = Inl err \<and> os_IsNotExist err"
  then have "ensureDir dir w = os_MkdirAll dir (log_event (EvStat dir) w)"
    by (simp add: ensureDir_cases)
  with a show "fst (cacheDir [] w) =
            (case fst (os_MkdirAll dir (log_event (EvStat dir) w)) of
               None \<Rightarrow> Inr dir | Some e \<Rightarrow> Inl e)"
    by (cases "os_MkdirAll dir (log_event (EvStat dir) w)")
       (auto simp: cacheDir_eq split: option.splits)
next
  fix dir p
  assume "wf_world w \<and> spec_cache_root w = Inr dir \<and> resolve False dir w = Inr p
          \<and> node_at (fs w) p = None"
  then show "fst (cacheDir [] w) = Inr dir"
    using cacheDir_absent(1) by blast
next
  fix dir p
  assume "wf_world w \<and> spec_cache_root w = Inr dir \<and> resolve False dir w = Inr p
          \<and> node_at (fs w) p = None"
  then show "fs (w_cache w) = (fs w)(p \<mapsto> Dir)"
    using cacheDir_absent(2) by blast
next
  fix dir
  assume "wf_world w \<and> fst (cacheDir [] w) = Inr dir"
  then show "spec_cache_root w = Inr dir"
    by (simp add: cacheDir_success)
next
  fix dir
  assume "wf_world w \<and> fst (cacheDir [] w) = Inr dir"
  then show "\<exists>p. resolve True dir (w_cache w) = Inr p \<and> node_at (fs (w_cache w)) p = Some Dir"
    using cacheDir_usable(1) by blast
qed

lemma wf_fs_demo: "wf_fs demo_fs"
  unfolding wf_fs_def demo_fs_def
  by (auto simp: node_at_def split: if_splits)

lemma wf_demo_world: "wf_world demo_world"
  using wf_fs_demo by (simp add: wf_world_def demo_world_def node_at_def demo_fs_def)

lemma wf_fs_cached: "wf_fs cached_fs"
  unfolding wf_fs_def cached_fs_def demo_fs_def
  by (auto simp: node_at_def split: if_splits)



theorem cacheDir_resolution_witness:
  "wf_world demo_world
   \<and> spec_cache_root demo_world = Inr ''/home/u/.dep-cache''
   \<and> resolve False ''/home/u/.dep-cache'' demo_world = Inr [''home'', ''u'', ''.dep-cache'']
   \<and> node_at (fs demo_world) [''home'', ''u'', ''.dep-cache''] = None
   \<and> fst (cacheDir [] demo_world) = Inr ''/home/u/.dep-cache''
   \<and> fs (w_cache demo_world) = (fs demo_world)([''home'', ''u'', ''.dep-cache''] \<mapsto> Dir)
   \<and> (\<exists>p. resolve True ''/home/u/.dep-cache'' (w_cache demo_world) = Inr p
          \<and> node_at (fs (w_cache demo_world)) p = Some Dir)"
proof -
  have h1: "spec_cache_root demo_world = Inr ''/home/u/.dep-cache''" by code_simp
  have h2: "resolve False ''/home/u/.dep-cache'' demo_world = Inr [''home'', ''u'', ''.dep-cache'']"
    by code_simp
  have h3: "node_at (fs demo_world) [''home'', ''u'', ''.dep-cache''] = None" by code_simp
  note t = cacheDir_resolution[of demo_world]
  from t wf_demo_world h1 h2 h3
  have c1: "fst (cacheDir [] demo_world) = Inr ''/home/u/.dep-cache''
      \<and> fs (w_cache demo_world) = (fs demo_world)([''home'', ''u'', ''.dep-cache''] \<mapsto> Dir)"
    by blast
  with t wf_demo_world
  have c2: "\<exists>p. resolve True ''/home/u/.dep-cache'' (w_cache demo_world) = Inr p
          \<and> node_at (fs (w_cache demo_world)) p = Some Dir"
    by blast
  from wf_demo_world h1 h2 h3 c1 c2 show ?thesis by blast
qed

text \<open>
  The claim as it is written fails where it promises an absolute path: with
  \<^verbatim>\<open>CACHE_DIR=cache\<close> the result is the relative path \<open>cache\<close>.
\<close>

theorem cacheDir_relative_counterexample:
  "fst (cacheDir [] rel_world) = Inr ''cache'' \<and> \<not> is_abs ''cache''"
  by code_simp

section \<open>The \<^verbatim>\<open>-clean\<close> run\<close>







section \<open>The guard of the output path\<close>


lemma trace_w_hash [simp]: "trace (w_hash P argv w) = trace (w_cache w) @ [EvOpen (argv ! 0)]"
  by (simp add: w_hash_def)












section \<open>What the installer writes\<close>

lemma wf_fs_ancestor:
  "wf_fs f \<Longrightarrow> node_at f (p @ s) \<noteq> None \<Longrightarrow> node_at f p \<noteq> None"
proof (induction s rule: rev_induct)
  case Nil
  then show ?case by simp
next
  case (snoc x s)
  from snoc.prems(2) have "f (p @ s @ [x]) \<noteq> None" by (simp add: node_at_def)
  with snoc.prems(1) have "node_at f (butlast (p @ s @ [x])) = Some Dir"
    unfolding wf_fs_def by blast
  then have "node_at f (p @ s) \<noteq> None" by (simp add: butlast_append)
  with snoc show ?case by blast
qed

lemma wf_fs_prefix: "wf_fs f \<Longrightarrow> node_at f q \<noteq> None \<Longrightarrow> prefix p q \<Longrightarrow> node_at f p \<noteq> None"
  by (auto simp: prefix_def dest: wf_fs_ancestor)

lemma prefix_comparable: "prefix p q \<Longrightarrow> prefix c q \<Longrightarrow> prefix p c \<or> prefix c p"
  by (metis prefix_same_cases)

lemma graft_outside: "\<not> prefix dst q \<Longrightarrow> graft f src dst q = f q"
  by (simp add: graft_def)


lemma os_Symlink_cases:
  "os_Symlink a b w =
     (case resolve False b w of
        Inl e \<Rightarrow> (Some (PathError e), log_event (EvSymlink a b) w)
      | Inr p \<Rightarrow>
          if node_at (fs w) p = None
          then (None, log_event (EvSymlink a b) (w\<lparr>fs := (fs w)(p \<mapsto> Symlink a)\<rparr>))
          else (Some (PathError EEXIST), log_event (EvSymlink a b) w))"
  by (auto simp: os_Symlink_def split: sum.splits option.splits)

lemma os_Symlink_frame:
  "resolve False b w = Inr p \<Longrightarrow> q \<noteq> p \<Longrightarrow> fs (snd (os_Symlink a b w)) q = fs w q"
  by (simp add: os_Symlink_cases)

lemma os_Symlink_occupied:
  "resolve False b w = Inr p \<Longrightarrow> node_at (fs w) p \<noteq> None \<Longrightarrow> fs (snd (os_Symlink a b w)) = fs w"
  by (auto simp: os_Symlink_cases)

lemma cp_R_vacant:
  "resolve_in f wd False b = Inr lp \<Longrightarrow> node_at f lp = None
   \<Longrightarrow> cp_R P a b wd f =
       (case resolve_in f wd False a of
          Inl e \<Rightarrow> (Exited 1, f)
        | Inr sp \<Rightarrow>
            if node_at f sp = None \<or> prefix sp lp then (Exited 1, f) else (Exited 0, graft f sp lp))"
  by (auto simp: cp_R_def split: sum.splits option.splits)


lemma spawn_cp: "spawn P ''cp'' [''-R'', a, b] wd f = cp_R P a b wd f"
  by (simp add: spawn_def)


lemma fs_Copy:
  "fs (snd (Copy P a b w)) =
     (case fst (cp_R P a b (cwd w) (fs w)) of
        Exited n \<Rightarrow> snd (cp_R P a b (cwd w) (fs w))
      | NotStarted \<Rightarrow> fs w)"
  by (simp add: Copy_def run_def fs_exec_Run spawn_cp cong: proc_result.case_cong)

lemma Copy_vacant_frame:
  assumes "resolve False b w = Inr p" and "node_at (fs w) p = None" and "\<not> prefix p q"
  shows "fs (snd (Copy P a b w)) q = fs w q"
proof -
  from assms(1) have r: "resolve_in (fs w) (cwd w) False b = Inr p" by (simp add: resolve_def)
  show ?thesis
    unfolding fs_Copy cp_R_vacant[OF r assms(2)] using assms(3)
    by (auto simp: graft_outside split: sum.splits proc_result.splits)
qed

lemma Install_cases:
  "Install P from to link w =
     (case filepath_Abs from w of
        Inl err \<Rightarrow> (Some err, w)
      | Inr from' \<Rightarrow>
          (case filepath_Abs to w of
             Inl err \<Rightarrow> (Some err, w)
           | Inr to' \<Rightarrow> if link then os_Symlink from' to' w else Copy P from' to' w))"
  by (simp add: Install_def)

lemma Install_frame_outside:
  assumes "filepath_Abs to w = Inr to'" and "resolve False to' w = Inr p"
    and "link \<or> node_at (fs w) p = None" and "\<not> prefix p q"
  shows "fs (snd (Install P from to link w)) q = fs w q"
proof (cases "filepath_Abs from w")
  case (Inl err)
  then show ?thesis by (simp add: Install_cases)
next
  case (Inr from')
  show ?thesis
  proof (cases link)
    case True
    from assms(4) have "q \<noteq> p" by auto
    with Inr True assms(1,2) show ?thesis
      by (simp add: Install_cases os_Symlink_frame)
  next
    case False
    with assms(3) have "node_at (fs w) p = None" by simp
    with Inr False assms(1,2,4) show ?thesis
      by (simp add: Install_cases Copy_vacant_frame)
  qed
qed

text \<open>
  Claim C9, as the code has it. Let the absolute output path name the location \<open>p\<close>
  and, when the installer copies, let that location be vacant, as the guard leaves it.
  Then \<open>Install\<close> changes nothing outside \<open>p\<close>. So in a well-formed file system the
  cache entry, a directory at the location \<open>c\<close>, is unchanged with everything below it
  whenever the output location does not lie inside it.
\<close>

theorem Install_frame:
  assumes "filepath_Abs to w = Inr to'" and "resolve False to' w = Inr p"
    and "link \<or> node_at (fs w) p = None"
  shows "(\<forall>q. \<not> prefix p q \<longrightarrow> fs (snd (Install P from to link w)) q = fs w q)
       \<and> (\<forall>c. wf_fs (fs w) \<and> resolve True from w = Inr c \<and> node_at (fs w) c = Some Dir \<and> \<not> prefix c p
            \<longrightarrow> (\<forall>q. prefix c q \<longrightarrow> fs (snd (Install P from to link w)) q = fs w q))"
proof (intro conjI allI impI)
  fix q assume "\<not> prefix p q"
  with assms show "fs (snd (Install P from to link w)) q = fs w q"
    by (rule Install_frame_outside)
next
  fix c q
  assume a: "wf_fs (fs w) \<and> resolve True from w = Inr c \<and> node_at (fs w) c = Some Dir \<and> \<not> prefix c p"
    and q: "prefix c q"
  show "fs (snd (Install P from to link w)) q = fs w q"
  proof (cases "prefix p q")
    case False
    with assms show ?thesis by (rule Install_frame_outside)
  next
    case True
    with q a have pc: "prefix p c" using prefix_comparable by blast
    from a have "node_at (fs w) c \<noteq> None" by simp
    with a pc have occ: "node_at (fs w) p \<noteq> None" using wf_fs_prefix by blast
    with assms(3) have link by blast
    with assms(1,2) occ show ?thesis
      by (cases "filepath_Abs from w") (simp_all add: Install_cases os_Symlink_occupied)
  qed
qed

theorem Install_frame_witness:
  "filepath_Abs ''out'' cached_world = Inr ''/w/out''
   \<and> resolve False ''/w/out'' cached_world = Inr [''w'', ''out'']
   \<and> node_at (fs cached_world) [''w'', ''out''] = None
   \<and> wf_fs (fs cached_world)
   \<and> resolve True ''/home/u/.dep-cache/41'' cached_world = Inr [''home'', ''u'', ''.dep-cache'', ''41'']
   \<and> node_at (fs cached_world) [''home'', ''u'', ''.dep-cache'', ''41''] = Some Dir
   \<and> \<not> prefix [''home'', ''u'', ''.dep-cache'', ''41''] [''w'', ''out'']
   \<and> fs (snd (Install demo_platform ''/home/u/.dep-cache/41'' ''out'' False cached_world))
        [''home'', ''u'', ''.dep-cache'', ''41'', ''f'']
      = fs cached_world [''home'', ''u'', ''.dep-cache'', ''41'', ''f'']
   \<and> fs (snd (Install demo_platform ''/home/u/.dep-cache/41'' ''out'' False cached_world))
        [''w'', ''out'', ''f'']
      = Some (File ''hi'')"
proof -
  have h1: "filepath_Abs ''out'' cached_world = Inr ''/w/out''" by code_simp
  have h2: "resolve False ''/w/out'' cached_world = Inr [''w'', ''out'']" by code_simp
  have h3: "node_at (fs cached_world) [''w'', ''out''] = None" by code_simp
  then have h3': "False \<or> node_at (fs cached_world) [''w'', ''out''] = None" by simp
  have h4: "wf_fs (fs cached_world)" using wf_fs_cached by (simp add: cached_world_def)
  have h5: "resolve True ''/home/u/.dep-cache/41'' cached_world = Inr [''home'', ''u'', ''.dep-cache'', ''41'']"
    by code_simp
  have h6: "node_at (fs cached_world) [''home'', ''u'', ''.dep-cache'', ''41''] = Some Dir" by code_simp
  have h7: "\<not> prefix [''home'', ''u'', ''.dep-cache'', ''41''] [''w'', ''out'']" by simp
  have h8: "prefix [''home'', ''u'', ''.dep-cache'', ''41''] [''home'', ''u'', ''.dep-cache'', ''41'', ''f'']" by simp
  from Install_frame[OF h1 h2 h3', of demo_platform "''/home/u/.dep-cache/41''"] h4 h5 h6 h7 h8
  have c: "fs (snd (Install demo_platform ''/home/u/.dep-cache/41'' ''out'' False cached_world))
        [''home'', ''u'', ''.dep-cache'', ''41'', ''f'']
      = fs cached_world [''home'', ''u'', ''.dep-cache'', ''41'', ''f'']"
    by blast
  have d: "fs (snd (Install demo_platform ''/home/u/.dep-cache/41'' ''out'' False cached_world))
        [''w'', ''out'', ''f''] = Some (File ''hi'')"
    by code_simp
  from h1 h2 h3 h4 h5 h6 h7 c d show ?thesis by blast
qed

text \<open>
  The claim as it is written fails when the output path lies inside the cache entry:
  the run below finds the cache entry of \<open>spec\<close>, installs it by a link at
  \<open>/home/u/.dep-cache/41/out\<close>, and so adds a node to the cache entry.
\<close>

theorem Install_inside_cache_counterexample:
  "fst (IsDir ''/home/u/.dep-cache/41''
      (w_probe demo_platform default_flags [''spec'', ''/home/u/.dep-cache/41/out'', ''mk''] cached_world))
     = Inr True
   \<and> fst (main demo_platform default_flags [''spec'', ''/home/u/.dep-cache/41/out'', ''mk''] cached_world) = None
   \<and> fs cached_world [''home'', ''u'', ''.dep-cache'', ''41'', ''out''] = None
   \<and> fs (snd (main demo_platform default_flags [''spec'', ''/home/u/.dep-cache/41/out'', ''mk''] cached_world))
        [''home'', ''u'', ''.dep-cache'', ''41'', ''out'']
      = Some (Symlink ''/home/u/.dep-cache/41'')"
  by code_simp

section \<open>The end of a successful run\<close>










lemma cwd_Copy [simp]: "cwd (snd (Copy P a b w)) = cwd w"
  by (simp add: Copy_def run_def exec_Run_def split: prod.splits proc_result.splits)



lemma cwd_os_Symlink [simp]: "cwd (snd (os_Symlink a b w)) = cwd w"
  by (simp add: os_Symlink_cases split: sum.splits)

lemma cwd_Install [simp]: "cwd (snd (Install P from to link w)) = cwd w"
  by (simp add: Install_cases split: sum.splits)






end
